theory Spec2Isabelle
  imports Complex_Main "HOL-Library.Word" "HOL-Library.Log_Nat"
begin

section \<open>Reflection controller: the reflector list (gl\_refl.c)\<close>

text \<open>
  \<^verbatim>\<open>#define MAX_REFL 2\<close>, \<^verbatim>\<open>int g_num_refl\<close> and \<^verbatim>\<open>float g_refl_Z[MAX_REFL]\<close>.
  A Z value is the height of a horizontal water plane read from the map; it is modelled
  as a real number, on which C's \<^verbatim>\<open>==\<close> for finite floats is equality.
\<close>

definition MAX_REFL :: nat where
  "MAX_REFL = 2"

record refl_state =
  g_num_refl :: nat
  g_refl_Z :: "real list"

definition R_clear_refl :: "refl_state \<Rightarrow> refl_state" where
  "R_clear_refl s = s\<lparr>g_num_refl := 0\<rparr>"

text \<open>The duplicate scan \<^verbatim>\<open>for (; i < g_num_refl; i++) if (g_refl_Z[i] == Z) return;\<close>\<close>

function refl_is_dup :: "refl_state \<Rightarrow> real \<Rightarrow> nat \<Rightarrow> bool" where
  "refl_is_dup s Z i =
     (if i < g_num_refl s
      then (if g_refl_Z s ! i = Z then True else refl_is_dup s Z (Suc i))
      else False)"
  by pat_completeness auto
termination
  by (relation "measure (\<lambda>(s, Z, i). g_num_refl s - i)") auto

declare refl_is_dup.simps [simp del]

definition R_add_refl :: "real \<Rightarrow> refl_state \<Rightarrow> refl_state" where
  "R_add_refl Z s =
     (if refl_is_dup s Z 0 then s
      else if g_num_refl s < MAX_REFL
      then s\<lparr>g_refl_Z := (g_refl_Z s)[g_num_refl s := Z], g_num_refl := g_num_refl s + 1\<rparr>
      else s)"

text \<open>The reflectors in use: the first \<^verbatim>\<open>g_num_refl\<close> cells of the array.\<close>

definition refl_list :: "refl_state \<Rightarrow> real list" where
  "refl_list s = take (g_num_refl s) (g_refl_Z s)"

text \<open>One detection pass: \<^verbatim>\<open>R_clear_refl\<close>, then one \<^verbatim>\<open>R_add_refl\<close> per surface found.\<close>

definition refl_pass :: "refl_state \<Rightarrow> real list \<Rightarrow> refl_state" where
  "refl_pass s Zs = foldl (\<lambda>t Z. R_add_refl Z t) (R_clear_refl s) Zs"

text \<open>Discovery order: every value once, at the place of its first occurrence.\<close>

fun first_seen :: "real list \<Rightarrow> real list" where
  "first_seen [] = []"
| "first_seen (Z # Zs) = Z # filter (\<lambda>Y. Y \<noteq> Z) (first_seen Zs)"

section \<open>Image cache: palette and upload (gl\_image.c)\<close>

subsection \<open>Single and double precision\<close>

text \<open>
  A \<^verbatim>\<open>float\<close> is an IEEE binary32 number and a \<^verbatim>\<open>double\<close> a binary64 number. A value is
  a real number, and storing the exact result of an operation in a variable rounds it
  to the nearest number of the format, ties to the even significand. \<open>fl_round p emin\<close>
  does this for \<open>p\<close> significant bits and least exponent \<open>emin\<close>; overflow does not
  occur below, where every value is under 512.
\<close>

definition round_even :: "real \<Rightarrow> int" where
  "round_even q =
     (let f = \<lfloor>q\<rfloor>; d = q - real_of_int f
      in if d < 1 / 2 then f else if d > 1 / 2 then f + 1 else if even f then f else f + 1)"

definition pow2 :: "int \<Rightarrow> real" where
  "pow2 e = (if 0 \<le> e then 2 ^ nat e else 1 / 2 ^ nat (- e))"

text \<open>The exponent of the leading bit of \<open>x\<close>, that is \<open>\<lfloor>log\<^sub>2 \<bar>x\<bar>\<rfloor>\<close>, through bit lengths.\<close>

definition ilog2 :: "real \<Rightarrow> int" where
  "ilog2 x = (if 1 \<le> \<bar>x\<bar> then bitlen \<lfloor>\<bar>x\<bar>\<rfloor> - 1 else - bitlen (\<lceil>1 / \<bar>x\<bar>\<rceil> - 1))"

definition fl_round :: "nat \<Rightarrow> int \<Rightarrow> real \<Rightarrow> real" where
  "fl_round p emin x =
     (let e = max emin (ilog2 x);
          u = pow2 (e - int p + 1)
      in real_of_int (round_even (x / u)) * u)"

definition to_float :: "real \<Rightarrow> real" where
  "to_float x = fl_round 24 (- 126) x"

definition to_double :: "real \<Rightarrow> real" where
  "to_double x = fl_round 53 (- 1022) x"

subsection \<open>\<^verbatim>\<open>Draw_GetPalette\<close>\<close>

text \<open>
  The loop body works on \<^verbatim>\<open>int r, g, b\<close> and \<^verbatim>\<open>float avg, d1, d2, d3, dr, dg, db, sat\<close>.
  An operation with a \<^verbatim>\<open>double\<close> constant is done in double precision and its result is
  stored as a \<^verbatim>\<open>float\<close>; an operation on floats, or on a float and an \<^verbatim>\<open>int\<close>, is done in
  single precision. The conversion of a float to \<^verbatim>\<open>int\<close> truncates towards zero.
\<close>

definition c_trunc :: "real \<Rightarrow> int" where
  "c_trunc x = (if 0 \<le> x then \<lfloor>x\<rfloor> else \<lceil>x\<rceil>)"

text \<open>
  \<^verbatim>\<open>d1 = abs(r - g); d2 = abs(g - b); d3 = abs(b - r);\<close> then the nested \<^verbatim>\<open>if\<close> that picks
  \<^verbatim>\<open>sat\<close>, then \<^verbatim>\<open>sat /= 255.0; sat = 1.0 - sat; sat *= (1.0 - 0.75);\<close>
\<close>

definition Draw_GetPalette_sat :: "int \<Rightarrow> int \<Rightarrow> int \<Rightarrow> real" where
  "Draw_GetPalette_sat r g b =
     (let d1 = to_float (real_of_int \<bar>r - g\<bar>);
          d2 = to_float (real_of_int \<bar>g - b\<bar>);
          d3 = to_float (real_of_int \<bar>b - r\<bar>);
          sat = (if d1 > d2
                 then (if d1 > d3 then d1 else if d2 > d3 then d2 else d3)
                 else (if d2 > d3 then d2 else d3));
          sat = to_float (to_double (sat / 255));
          sat = to_float (to_double (1 - sat));
          sat = to_float (to_double (sat * (1 - 0.75)))
      in sat)"

text \<open>\<^verbatim>\<open>avg = (r + g + b + 2) / 3\<close> is an integer division stored in a float.\<close>

definition Draw_GetPalette_avg :: "int \<Rightarrow> int \<Rightarrow> int \<Rightarrow> real" where
  "Draw_GetPalette_avg r g b = to_float (real_of_int ((r + g + b + 2) div 3))"

text \<open>
  \<^verbatim>\<open>dr = avg - r; ... dr *= sat; ... r += dr;\<close> for one gun \<open>x\<close>: the distance from grey,
  scaled by \<^verbatim>\<open>sat\<close>, is added to the gun and the sum is truncated to \<^verbatim>\<open>int\<close>.
\<close>

definition Draw_GetPalette_gun :: "real \<Rightarrow> real \<Rightarrow> int \<Rightarrow> int" where
  "Draw_GetPalette_gun avg sat x =
     (let dx = to_float (avg - to_float (real_of_int x));
          dx = to_float (dx * sat)
      in c_trunc (to_float (to_float (real_of_int x) + dx)))"

text \<open>\<^verbatim>\<open>v = (255<<24) + (r<<0) + (g<<8) + (b<<16)\<close> as a 32-bit unsigned value.\<close>

definition Draw_GetPalette_entry :: "8 word \<Rightarrow> 8 word \<Rightarrow> 8 word \<Rightarrow> 32 word" where
  "Draw_GetPalette_entry pr pg pb =
     (let r = uint pr; g = uint pg; b = uint pb;
          avg = Draw_GetPalette_avg r g b;
          sat = Draw_GetPalette_sat r g b;
          r' = Draw_GetPalette_gun avg sat r;
          g' = Draw_GetPalette_gun avg sat g;
          b' = Draw_GetPalette_gun avg sat b
      in push_bit 24 255 + word_of_int r' + push_bit 8 (word_of_int g')
           + push_bit 16 (word_of_int b'))"

text \<open>
  The whole table: entry \<open>i\<close> comes from \<^verbatim>\<open>pal[i*3+0..2]\<close>, and entry 255 loses its alpha
  byte (\<^verbatim>\<open>d_8to24table[255] &= 0xffffff\<close>). \<^verbatim>\<open>pal\<close> is the 768-byte palette of
  pics/colormap.pcx; when it cannot be loaded the function stops with \<^verbatim>\<open>ERR_FATAL\<close> before
  the loop.
\<close>

definition Draw_GetPalette :: "8 word list \<Rightarrow> 32 word list" where
  "Draw_GetPalette pal =
     (let tbl = map (\<lambda>i. Draw_GetPalette_entry (pal ! (i * 3)) (pal ! (i * 3 + 1))
                               (pal ! (i * 3 + 2))) [0..<256]
      in tbl[255 := and (tbl ! 255) 0xffffff])"

text \<open>
  The spec's formula for the same factor, for comparison:
  \<open>sat_out = 1 - (max_gun_delta/255) * 0.25\<close>.
\<close>

definition max_gun_delta :: "int \<Rightarrow> int \<Rightarrow> int \<Rightarrow> real" where
  "max_gun_delta r g b = real_of_int (max \<bar>r - g\<bar> (max \<bar>g - b\<bar> \<bar>b - r\<bar>))"

definition spec_sat_out :: "int \<Rightarrow> int \<Rightarrow> int \<Rightarrow> real" where
  "spec_sat_out r g b = 1 - (max_gun_delta r g b / 255) * 0.25"

subsection \<open>\<^verbatim>\<open>GL_Upload32\<close> and \<^verbatim>\<open>GL_Upload8\<close>: the has-alpha result\<close>

definition gl_solid_format :: int where
  "gl_solid_format = 3"

definition gl_alpha_format :: int where
  "gl_alpha_format = 4"

text \<open>
  The texture is a buffer of 4 bytes per pixel; \<^verbatim>\<open>scan = ((byte *)data) + 3\<close> walks over the
  fourth byte of each pixel:
  \<^verbatim>\<open>for (i=0 ; i<c ; i++, scan += 4) if ( *scan != 255 ) { samples = gl_alpha_format; break; }\<close>
\<close>

function alpha_scan :: "8 word list \<Rightarrow> int \<Rightarrow> int \<Rightarrow> bool" where
  "alpha_scan data c i =
     (if i < c
      then (if data ! nat (4 * i + 3) \<noteq> 255 then True else alpha_scan data c (i + 1))
      else False)"
  by pat_completeness auto
termination
  by (relation "measure (\<lambda>(data, c, i). nat (c - i))") auto

declare alpha_scan.simps [simp del]

text \<open>
  The value of \<^verbatim>\<open>samples\<close> at the end of \<^verbatim>\<open>GL_Upload32\<close>. Nothing after the scan assigns it:
  the rescaling, the light scaling, the mipmaps and the calls into the GL change the
  texture object and \<^verbatim>\<open>upload_width\<close>, \<^verbatim>\<open>upload_height\<close> only.
\<close>

definition GL_Upload32_samples :: "8 word list \<Rightarrow> int \<Rightarrow> int \<Rightarrow> int \<Rightarrow> int" where
  "GL_Upload32_samples data width height bpp =
     (let samples = gl_solid_format;
          c = width * height
      in if bpp \<noteq> 24
         then (if alpha_scan data c 0 then gl_alpha_format else samples)
         else samples)"

text \<open>\<^verbatim>\<open>return (samples == gl_alpha_format);\<close>\<close>

definition GL_Upload32 :: "8 word list \<Rightarrow> int \<Rightarrow> int \<Rightarrow> int \<Rightarrow> bool" where
  "GL_Upload32 data width height bpp =
     (GL_Upload32_samples data width height bpp = gl_alpha_format)"

text \<open>The four bytes of an \<^verbatim>\<open>unsigned\<close> in memory, lowest first (the targets are little-endian).\<close>

definition word_bytes :: "32 word \<Rightarrow> 8 word list" where
  "word_bytes v = map (\<lambda>k. ucast (drop_bit (8 * k) v)) [0, 1, 2, 3]"

text \<open>
  \<^verbatim>\<open>GL_Upload8\<close>, one pixel: \<^verbatim>\<open>trans[i] = d_8to24table[p]\<close>, and for the transparent index 255
  the colour bytes are taken from a neighbour (above, below, left, right, else index 0).
\<close>

definition GL_Upload8_pixel :: "32 word list \<Rightarrow> 8 word list \<Rightarrow> int \<Rightarrow> int \<Rightarrow> int \<Rightarrow> 8 word list" where
  "GL_Upload8_pixel tbl data width s i =
     (let p = data ! nat i;
          trans = word_bytes (tbl ! unat p)
      in if p = 255
         then (let p = (if i > width \<and> data ! nat (i - width) \<noteq> 255 then data ! nat (i - width)
                        else if i < s - width \<and> data ! nat (i + width) \<noteq> 255
                             then data ! nat (i + width)
                        else if i > 0 \<and> data ! nat (i - 1) \<noteq> 255 then data ! nat (i - 1)
                        else if i < s - 1 \<and> data ! nat (i + 1) \<noteq> 255 then data ! nat (i + 1)
                        else 0)
               in take 3 (word_bytes (tbl ! unat p)) @ drop 3 trans)
         else trans)"

definition GL_Upload8_trans :: "32 word list \<Rightarrow> 8 word list \<Rightarrow> int \<Rightarrow> int \<Rightarrow> 8 word list" where
  "GL_Upload8_trans tbl data width height =
     (let s = width * height
      in concat (map (\<lambda>i. GL_Upload8_pixel tbl data width s (int i)) [0..<nat s]))"

definition GL_Upload8 :: "32 word list \<Rightarrow> 8 word list \<Rightarrow> int \<Rightarrow> int \<Rightarrow> bool" where
  "GL_Upload8 tbl data width height =
     GL_Upload32 (GL_Upload8_trans tbl data width height) width height 8"

text \<open>The alpha byte of pixel \<open>k\<close> in a buffer of 4 bytes per pixel (r, g, b, a).\<close>

definition pixel_alpha :: "8 word list \<Rightarrow> int \<Rightarrow> 8 word" where
  "pixel_alpha data k = data ! nat (4 * k + 3)"

text \<open>The image of the spec's scenario: \<open>n\<close> pixels \<^verbatim>\<open>{r:200,g:100,b:50,a:255}\<close>.\<close>

definition opaque_image :: "nat \<Rightarrow> 8 word list" where
  "opaque_image n = concat (replicate n [200, 100, 50, 255])"

section \<open>Screen capture (gl\_rmisc.c)\<close>

text \<open>
  The part of the machine \<^verbatim>\<open>GL_ScreenShot_f\<close> touches: the files (path to contents), the
  directories, and the console output.
\<close>

record shot_state =
  files :: "string \<Rightarrow> 8 word list option"
  dirs :: "string set"
  console :: "string list"

text \<open>\<^verbatim>\<open>Sys_Mkdir\<close> creates the directory when it is not there.\<close>

definition Sys_Mkdir :: "string \<Rightarrow> shot_state \<Rightarrow> shot_state" where
  "Sys_Mkdir path st = st\<lparr>dirs := insert path (dirs st)\<rparr>"

text \<open>\<^verbatim>\<open>d + '0'\<close> for a decimal digit \<open>d\<close>.\<close>

definition digit_char :: "int \<Rightarrow> char" where
  "digit_char d = ''0123456789'' ! nat d"

text \<open>
  \<^verbatim>\<open>strcpy(picname,"quake00.tga"); picname[5] = i/10 + '0'; picname[6] = i%10 + '0';\<close>
\<close>

definition picname :: "int \<Rightarrow> string" where
  "picname i = (''quake00.tga'')[5 := digit_char (i div 10), 6 := digit_char (i mod 10)]"

text \<open>\<^verbatim>\<open>Com_sprintf (checkname, sizeof(checkname), "%s/scrnshot/%s", FS_Gamedir(), picname)\<close>\<close>

definition checkname :: "string \<Rightarrow> int \<Rightarrow> string" where
  "checkname gamedir i = gamedir @ ''/scrnshot/'' @ picname i"

text \<open>
  The search loop; \<^verbatim>\<open>fopen (checkname, "rb")\<close> fails when the file does not exist. The
  result is the value of \<^verbatim>\<open>i\<close> after the loop.
\<close>

function shot_scan :: "(string \<Rightarrow> 8 word list option) \<Rightarrow> string \<Rightarrow> int \<Rightarrow> int" where
  "shot_scan fs gamedir i =
     (if i \<le> 99
      then (if fs (checkname gamedir i) = None then i else shot_scan fs gamedir (i + 1))
      else i)"
  by pat_completeness auto
termination
  by (relation "measure (\<lambda>(fs, gamedir, i). nat (100 - i))") auto

declare shot_scan.simps [simp del]

text \<open>
  The TGA buffer: an 18-byte header, then the pixels read back from the GL (3 bytes each),
  passed through the gamma table when \<^verbatim>\<open>gl_config.gammaramp\<close> is set, with red and blue
  swapped. The table itself is computed with \<^verbatim>\<open>pow\<close> and is taken as given.
\<close>

definition tga_header :: "int \<Rightarrow> int \<Rightarrow> 8 word list" where
  "tga_header w h =
     (replicate 18 0)[2 := 2, 12 := word_of_int (w mod 256), 13 := word_of_int (w div 256),
                      14 := word_of_int (h mod 256), 15 := word_of_int (h div 256), 16 := 24]"

fun swap_rgb :: "8 word list \<Rightarrow> 8 word list" where
  "swap_rgb (r # g # b # rest) = b # g # r # swap_rgb rest"
| "swap_rgb rest = rest"

definition tga_buffer :: "int \<Rightarrow> int \<Rightarrow> 8 word list \<Rightarrow> 8 word list option \<Rightarrow> 8 word list" where
  "tga_buffer w h pixels gammaTable =
     tga_header w h @
     swap_rgb (case gammaTable of None \<Rightarrow> pixels
               | Some tbl \<Rightarrow> map (\<lambda>p. tbl ! unat p) pixels)"

definition GL_ScreenShot_f ::
  "string \<Rightarrow> int \<Rightarrow> int \<Rightarrow> 8 word list \<Rightarrow> 8 word list option \<Rightarrow> shot_state \<Rightarrow> shot_state" where
  "GL_ScreenShot_f gamedir w h pixels gammaTable st =
     (let st = Sys_Mkdir (gamedir @ ''/scrnshot'') st;
          i = shot_scan (files st) gamedir 0
      in if i = 100
         then st\<lparr>console := console st @ [''SCR_ScreenShot_f: Couldn't create a file'' @ [CHR 0x0A]]\<rparr>
         else st\<lparr>files := (files st)(checkname gamedir i \<mapsto> tga_buffer w h pixels gammaTable),
                 console := console st @ [''Wrote '' @ picname i @ [CHR 0x0A]]\<rparr>)"

section \<open>Shaders of the renderer (GLSL), over the reals\<close>

type_synonym vec2 = "real \<times> real"
type_synonym vec3 = "real \<times> real \<times> real"
type_synonym vec4 = "real \<times> real \<times> real \<times> real"

subsection \<open>Sky vertex shader\<close>

text \<open>GLSL's \<^verbatim>\<open>length\<close>, \<^verbatim>\<open>normalize\<close> and \<^verbatim>\<open>radians\<close>.\<close>

definition glsl_length :: "vec3 \<Rightarrow> real" where
  "glsl_length v = (case v of (x, y, z) \<Rightarrow> sqrt (x * x + y * y + z * z))"

definition normalize :: "vec3 \<Rightarrow> vec3" where
  "normalize v = (case v of (x, y, z) \<Rightarrow> (x / glsl_length v, y / glsl_length v, z / glsl_length v))"

definition radians :: "real \<Rightarrow> real" where
  "radians degrees = pi / 180 * degrees"

text \<open>A \<^verbatim>\<open>mat3\<close> is built from its three columns; \<^verbatim>\<open>m * v\<close> combines the columns.\<close>

type_synonym mat3 = "vec3 \<times> vec3 \<times> vec3"

definition mat3_mul :: "mat3 \<Rightarrow> vec3 \<Rightarrow> vec3" where
  "mat3_mul m v =
     (case m of ((a0, a1, a2), (b0, b1, b2), (c0, c1, c2)) \<Rightarrow>
      case v of (x, y, z) \<Rightarrow>
        (a0 * x + b0 * y + c0 * z, a1 * x + b1 * y + c1 * z, a2 * x + b2 * y + c2 * z))"

definition rotationMatrix :: "vec3 \<Rightarrow> real \<Rightarrow> mat3" where
  "rotationMatrix axis angle =
     (case axis of (ax, ay, az) \<Rightarrow>
      let s = sin angle; c = cos angle; oc = 1 - c
      in ((oc * ax * ax + c, oc * ax * ay - az * s, oc * az * ax + ay * s),
          (oc * ax * ay + az * s, oc * ay * ay + c, oc * ay * az - ax * s),
          (oc * az * ax - ay * s, oc * ay * az + ax * s, oc * az * az + c)))"

text \<open>
  \<^verbatim>\<open>main\<close> of the sky vertex shader, output \<^verbatim>\<open>v_TexCoord\<close>:
  \<^verbatim>\<open>angle = radians(u_SkyRotate * u_Time); rot = rotationMatrix(normalize(u_SkyAxis), angle);\<close>
  \<^verbatim>\<open>v_TexCoord = rot * a_Position;\<close>
\<close>

definition sky_vert_main :: "vec3 \<Rightarrow> real \<Rightarrow> real \<Rightarrow> vec3 \<Rightarrow> vec3" where
  "sky_vert_main u_SkyAxis u_SkyRotate u_Time a_Position =
     (let angle = radians (u_SkyRotate * u_Time);
          rot = rotationMatrix (normalize u_SkyAxis) angle
      in mat3_mul rot a_Position)"

text \<open>What the spec describes: the rotation about the axis exactly as supplied.\<close>

definition sky_rotate_as_supplied :: "vec3 \<Rightarrow> real \<Rightarrow> real \<Rightarrow> vec3 \<Rightarrow> vec3" where
  "sky_rotate_as_supplied sky_axis sky_rotate time pos =
     mat3_mul (rotationMatrix sky_axis (radians (sky_rotate * time))) pos"

subsection \<open>Water fragment shader\<close>

text \<open>
  \<^verbatim>\<open>main\<close> of water.frag.glsl: the warped coordinate at which \<^verbatim>\<open>u_WaterTexture\<close> is sampled,
  and the fragment colour. The texture is a function from coordinates to colours.
\<close>

definition water_warpedCoord :: "vec2 \<Rightarrow> real \<Rightarrow> int \<Rightarrow> real \<Rightarrow> vec2" where
  "water_warpedCoord v_TexCoord u_Time u_IsFlowing u_ScrollOffset =
     (let os = fst v_TexCoord;
          ot = snd v_TexCoord;
          sOffset = sin ((ot * 0.125 + u_Time) * 6.28318) * 8;
          tOffset = sin ((os * 0.125 + u_Time) * 6.28318) * 8;
          ws = (os + sOffset) / 64;
          wt = (ot + tOffset) / 64;
          ws = (if u_IsFlowing \<noteq> 0 then ws + u_ScrollOffset / 64 else ws)
      in (ws, wt))"

definition water_frag_main ::
  "(vec2 \<Rightarrow> vec4) \<Rightarrow> vec2 \<Rightarrow> real \<Rightarrow> real \<Rightarrow> int \<Rightarrow> real \<Rightarrow> vec4" where
  "water_frag_main u_WaterTexture v_TexCoord u_Time u_Alpha u_IsFlowing u_ScrollOffset =
     (case u_WaterTexture (water_warpedCoord v_TexCoord u_Time u_IsFlowing u_ScrollOffset) of
        (r, g, b, a) \<Rightarrow> (r, g, b, u_Alpha))"

text \<open>The spec's warp formula, with \<open>2\<pi>\<close>.\<close>

definition spec_warp :: "vec2 \<Rightarrow> real \<Rightarrow> vec2" where
  "spec_warp st time =
     (case st of (s, t) \<Rightarrow>
        ((s + sin ((t * 0.125 + time) * 2 * pi) * 8) / 64,
         (t + sin ((s * 0.125 + time) * 2 * pi) * 8) / 64))"

subsection \<open>World fragment shader\<close>

record world_uniforms =
  u_OverbrightScale :: real
  u_Fullbright :: int
  u_SaturateLighting :: int
  u_EnableDetail :: int
  u_DetailScale :: real
  u_EnableCaustics :: int
  u_CausticScroll :: real
  u_IsUnderwater :: int
  u_LightmapOnly :: int

definition rgb :: "vec4 \<Rightarrow> vec3" where
  "rgb v = (case v of (r, g, b, a) \<Rightarrow> (r, g, b))"

definition alpha :: "vec4 \<Rightarrow> real" where
  "alpha v = (case v of (r, g, b, a) \<Rightarrow> a)"

definition vec3_mul :: "vec3 \<Rightarrow> vec3 \<Rightarrow> vec3" where
  "vec3_mul u v = (case u of (a, b, c) \<Rightarrow> case v of (x, y, z) \<Rightarrow> (a * x, b * y, c * z))"

definition vec3_scale :: "vec3 \<Rightarrow> real \<Rightarrow> vec3" where
  "vec3_scale u k = (case u of (a, b, c) \<Rightarrow> (a * k, b * k, c * k))"

definition vec3_add_scalar :: "real \<Rightarrow> vec3 \<Rightarrow> vec3" where
  "vec3_add_scalar k u = (case u of (a, b, c) \<Rightarrow> (k + a, k + b, k + c))"

text \<open>GLSL's \<^verbatim>\<open>clamp(x, lo, hi) = min(max(x, lo), hi)\<close>, componentwise on a \<^verbatim>\<open>vec3\<close>.\<close>

definition clamp :: "real \<Rightarrow> real \<Rightarrow> real \<Rightarrow> real" where
  "clamp x lo hi = min (max x lo) hi"

definition clamp3 :: "vec3 \<Rightarrow> real \<Rightarrow> real \<Rightarrow> vec3" where
  "clamp3 u lo hi = (case u of (a, b, c) \<Rightarrow> (clamp a lo hi, clamp b lo hi, clamp c lo hi))"

definition world_frag_main ::
  "world_uniforms \<Rightarrow> (vec2 \<Rightarrow> vec4) \<Rightarrow> (vec2 \<Rightarrow> vec4) \<Rightarrow> (vec2 \<Rightarrow> vec4) \<Rightarrow> vec2 \<Rightarrow> vec2 \<Rightarrow> vec4" where
  "world_frag_main U u_DiffuseTexture u_LightmapTexture u_OverlayTexture v_TexCoord v_LightmapCoord =
     (let diffuse = u_DiffuseTexture v_TexCoord
      in if u_Fullbright U \<noteq> 0 then diffuse
         else
           let lightmap = rgb (u_LightmapTexture v_LightmapCoord);
               lightmap = (if u_SaturateLighting U \<noteq> 0 then clamp3 lightmap 0 1 else lightmap)
           in if u_LightmapOnly U \<noteq> 0
              then (case vec3_scale lightmap (u_OverbrightScale U) of (r, g, b) \<Rightarrow> (r, g, b, 1))
              else
                let color = vec3_scale (vec3_mul (rgb diffuse) lightmap) (u_OverbrightScale U);
                    color = (if u_EnableDetail U \<noteq> 0 \<and> u_IsUnderwater U = 0
                             then (let detailUV = (fst v_TexCoord * u_DetailScale U,
                                                   snd v_TexCoord * u_DetailScale U);
                                       detail = rgb (u_OverlayTexture detailUV)
                                   in vec3_mul color (vec3_scale detail 2))
                             else color);
                    color = (if u_EnableCaustics U \<noteq> 0 \<and> u_IsUnderwater U \<noteq> 0
                             then (let causticUV = (fst v_TexCoord + u_CausticScroll U,
                                                    snd v_TexCoord + u_CausticScroll U);
                                       caustic = rgb (u_OverlayTexture causticUV)
                                   in vec3_mul color (vec3_add_scalar 1 (vec3_scale caustic 0.3)))
                             else color)
                in (case color of (r, g, b) \<Rightarrow> (r, g, b, alpha diffuse)))"

section \<open>Image cache: slots, scrap atlas, find and sweep (gl\_image.c)\<close>

text \<open>
  Modelled from the spec: gl\_local.h, which declares \<^verbatim>\<open>imagetype_t\<close> and \<^verbatim>\<open>image_t\<close>, is not
  among the sources. The spec lists the types (skin, sprite, wall, pic, sky) and the
  fields of an image; the fields below are those gl\_image.c reads or writes in the
  functions embedded here (the upload dimensions and the texture chain are left out).
  A zeroed \<^verbatim>\<open>image_t\<close> (a free slot, or one cleared by \<^verbatim>\<open>memset\<close>) is \<open>image_zero\<close>.
\<close>

datatype imagetype_t = it_skin | it_sprite | it_wall | it_pic | it_sky

record image_t =
  name :: string
  type :: imagetype_t
  width :: int
  height :: int
  registration_sequence :: int
  texnum :: int
  sl :: real
  tl :: real
  sh :: real
  th :: real
  has_alpha :: bool

definition image_zero :: image_t where
  "image_zero = \<lparr>name = [], type = it_skin, width = 0, height = 0, registration_sequence = 0,
     texnum = 0, sl = 0, tl = 0, sh = 0, th = 0, has_alpha = False\<rparr>"

text \<open>
  The globals of gl\_image.c and gl\_rmisc.c. An \<^verbatim>\<open>image_t *\<close> always points into
  \<^verbatim>\<open>gltextures\<close>, so it is a slot index, or \<open>None\<close> for \<^verbatim>\<open>NULL\<close>. \<^verbatim>\<open>MAX_SCRAPS\<close> is 1, so there
  is one scrap block.
\<close>

record gl_state =
  gltextures :: "image_t list"
  numgltextures :: nat
  global_registration_sequence :: int
  r_notexture :: "nat option"
  r_particletexture :: "nat option list"
  scrap_allocated :: "int list"
  scrap_texels :: "8 word list"
  scrap_dirty :: bool
  d_8to24table :: "32 word list"

text \<open>\<^verbatim>\<open>image_t gltextures[MAX_GLTEXTURES]\<close>: the bound is the size of the array.\<close>

definition MAX_GLTEXTURES :: "gl_state \<Rightarrow> nat" where
  "MAX_GLTEXTURES s = length (gltextures s)"

text \<open>
  What the functions take from outside: the constants of the missing headers,
  \<^verbatim>\<open>COM_StripExtension\<close>, and the file system. \<^verbatim>\<open>LoadPNG\<close> and \<^verbatim>\<open>LoadPCX\<close> leave with
  \<^verbatim>\<open>*pic\<close> set or \<^verbatim>\<open>NULL\<close> and in no other way, so each is its result for a file name: the
  picture with its width and height, or nothing. \<^verbatim>\<open>FS_LoadFile\<close> of a .wal file gives its
  width, height and the texels at \<^verbatim>\<open>offsets[0]\<close>; \<open>FS_LoadData\<close> is \<^verbatim>\<open>FS_LoadFile\<close> of a file
  read as bytes. \<open>TGA_body\<close> is the conversion of the colour map and the body of a
  Targa file to RGBA, and \<^verbatim>\<open>R_FloodFillSkin\<close> rewrites the picture of a skin.
\<close>

record gl_env =
  TEXNUM_SCRAPS :: int
  TEXNUM_IMAGES :: int
  MAX_QPATH :: nat
  COM_StripExtension :: "string \<Rightarrow> string"
  LoadPNG :: "string \<Rightarrow> (8 word list \<times> int \<times> int) option"
  LoadPCX :: "string \<Rightarrow> (8 word list \<times> int \<times> int) option"
  FS_LoadFile :: "string \<Rightarrow> (int \<times> int \<times> 8 word list) option"
  FS_LoadData :: "string \<Rightarrow> 8 word list option"
  TGA_body :: "8 word list \<Rightarrow> 8 word list"
  R_FloodFillSkin :: "8 word list \<Rightarrow> int \<Rightarrow> int \<Rightarrow> 8 word list"

text \<open>
  \<^verbatim>\<open>VID_Printf (ERR_DROP, ...)\<close> abandons the operation; a read through a \<^verbatim>\<open>NULL\<close> or
  uninitialised value is undefined in C and is an error of its own here.
\<close>

datatype error = ERR_DROP string | Undefined string

subsection \<open>\<^verbatim>\<open>Scrap_AllocBlock\<close>\<close>

definition BLOCK_WIDTH :: int where
  "BLOCK_WIDTH = 256"

definition BLOCK_HEIGHT :: int where
  "BLOCK_HEIGHT = 256"

text \<open>
  The inner loop over \<^verbatim>\<open>j\<close>; the result is \<^verbatim>\<open>j\<close> and \<^verbatim>\<open>best2\<close> when the loop is left.
\<close>

function scrap_scan_j :: "int list \<Rightarrow> int \<Rightarrow> int \<Rightarrow> int \<Rightarrow> int \<Rightarrow> int \<Rightarrow> int \<times> int" where
  "scrap_scan_j alloc i w best j best2 =
     (if j < w
      then (if alloc ! nat (i + j) \<ge> best then (j, best2)
            else scrap_scan_j alloc i w best (j + 1)
                   (if alloc ! nat (i + j) > best2 then alloc ! nat (i + j) else best2))
      else (j, best2))"
  by pat_completeness auto
termination
  by (relation "measure (\<lambda>(alloc, i, w, best, j, best2). nat (w - j))") auto

declare scrap_scan_j.simps [simp del]

text \<open>
  The loop over \<^verbatim>\<open>i\<close>; \<^verbatim>\<open>*x\<close> and \<^verbatim>\<open>*y\<close> are set together, and are \<open>None\<close> while unset.
\<close>

function scrap_scan_i ::
  "int list \<Rightarrow> int \<Rightarrow> int \<Rightarrow> (int \<times> int) option \<Rightarrow> int \<Rightarrow> (int \<times> int) option \<times> int" where
  "scrap_scan_i alloc w i xy best =
     (if i < BLOCK_WIDTH - w
      then (if fst (scrap_scan_j alloc i w best 0 0) = w
            then scrap_scan_i alloc w (i + 1)
                   (Some (i, snd (scrap_scan_j alloc i w best 0 0)))
                   (snd (scrap_scan_j alloc i w best 0 0))
            else scrap_scan_i alloc w (i + 1) xy best)
      else (xy, best))"
  by pat_completeness auto
termination
  by (relation "measure (\<lambda>(alloc, w, i, xy, best). nat (BLOCK_WIDTH - w - i))") auto

declare scrap_scan_i.simps [simp del]

text \<open>\<^verbatim>\<open>for (i=0 ; i<w ; i++) scrap_allocated[texnum][*x + i] = best + h;\<close>\<close>

function scrap_mark :: "int list \<Rightarrow> int \<Rightarrow> int \<Rightarrow> int \<Rightarrow> int \<Rightarrow> int list" where
  "scrap_mark alloc x w v i =
     (if i < w then scrap_mark (alloc[nat (x + i) := v]) x w v (i + 1) else alloc)"
  by pat_completeness auto
termination
  by (relation "measure (\<lambda>(alloc, x, w, v, i). nat (w - i))") auto

declare scrap_mark.simps [simp del]

text \<open>
  The result is \<open>None\<close> for \<^verbatim>\<open>-1\<close> (no room) and otherwise the texture number with the
  position, together with the new \<^verbatim>\<open>scrap_allocated\<close>.
\<close>

definition Scrap_AllocBlock ::
  "int list \<Rightarrow> int \<Rightarrow> int \<Rightarrow> error + ((int \<times> int \<times> int) option \<times> int list)" where
  "Scrap_AllocBlock alloc w h =
     (case scrap_scan_i alloc w 0 None BLOCK_HEIGHT of
        (xy, best) \<Rightarrow>
          if best + h > BLOCK_HEIGHT then Inr (None, alloc)
          else (case xy of
                  None \<Rightarrow> Inl (Undefined ''Scrap_AllocBlock: x and y not set'')
                | Some (x, y) \<Rightarrow> Inr (Some (0, x, y), scrap_mark alloc x w (best + h) 0)))"

subsection \<open>\<^verbatim>\<open>GL_LoadPic\<close>\<close>

text \<open>The search for a free \<^verbatim>\<open>image_t\<close>: the first slot below \<^verbatim>\<open>numgltextures\<close> with texnum 0.\<close>

function find_free :: "image_t list \<Rightarrow> nat \<Rightarrow> nat \<Rightarrow> nat" where
  "find_free ts n i =
     (if i < n then (if texnum (ts ! i) = 0 then i else find_free ts n (Suc i)) else i)"
  by pat_completeness auto
termination
  by (relation "measure (\<lambda>(ts, n, i). n - i)") auto

declare find_free.simps [simp del]

text \<open>\<^verbatim>\<open>!strcmp(s + len - 4, ext)\<close>: the last four characters are \<open>ext\<close>.\<close>

definition has_ext :: "string \<Rightarrow> string \<Rightarrow> bool" where
  "has_ext s ext = (drop (length s - 4) s = ext)"

text \<open>
  \<^verbatim>\<open>HIRES_TEX_SCALING\<close>: for a .tga or .png name the size is taken from the .wal file of the
  same name, when there is one.
\<close>

definition hires_size :: "gl_env \<Rightarrow> string \<Rightarrow> int \<Rightarrow> int \<Rightarrow> int \<times> int" where
  "hires_size env nm w h =
     (if has_ext nm ''.tga'' \<or> has_ext nm ''.png''
      then (case FS_LoadFile env (take (length nm - 3) nm @ ''wal'') of
              None \<Rightarrow> (w, h)
            | Some (mw, mh, texels) \<Rightarrow> (mw, mh))
      else (w, h))"

text \<open>The two loops that copy the texels of a small picture into the scrap block.\<close>

function scrap_copy_row ::
  "8 word list \<Rightarrow> 8 word list \<Rightarrow> int \<Rightarrow> int \<Rightarrow> int \<Rightarrow> int \<Rightarrow> int \<Rightarrow> int \<Rightarrow> 8 word list \<times> int" where
  "scrap_copy_row texels pic x y w i j k =
     (if j < w
      then scrap_copy_row (texels[nat ((y + i) * BLOCK_WIDTH + x + j) := pic ! nat k])
             pic x y w i (j + 1) (k + 1)
      else (texels, k))"
  by pat_completeness auto
termination
  by (relation "measure (\<lambda>(texels, pic, x, y, w, i, j, k). nat (w - j))") auto

declare scrap_copy_row.simps [simp del]

function scrap_copy ::
  "8 word list \<Rightarrow> 8 word list \<Rightarrow> int \<Rightarrow> int \<Rightarrow> int \<Rightarrow> int \<Rightarrow> int \<Rightarrow> int \<Rightarrow> 8 word list" where
  "scrap_copy texels pic x y w h i k =
     (if i < h
      then scrap_copy (fst (scrap_copy_row texels pic x y w i 0 k)) pic x y w h (i + 1)
             (snd (scrap_copy_row texels pic x y w i 0 k))
      else texels)"
  by pat_completeness auto
termination
  by (relation "measure (\<lambda>(texels, pic, x, y, w, h, i, k). nat (h - i))") auto

declare scrap_copy.simps [simp del]

text \<open>
  The part after the label \<^verbatim>\<open>nonscrap\<close>: the img gets its own texture, and
  \<^verbatim>\<open>has_alpha\<close> is what the upload returns.
\<close>

definition GL_LoadPic_nonscrap ::
  "gl_env \<Rightarrow> nat \<Rightarrow> image_t \<Rightarrow> 8 word list \<Rightarrow> int \<Rightarrow> int \<Rightarrow> int \<Rightarrow> gl_state \<Rightarrow> nat \<times> gl_state" where
  "GL_LoadPic_nonscrap env i img pic w h bits s =
     (let img = img\<lparr>texnum := TEXNUM_IMAGES env + int i\<rparr>;
          img = img\<lparr>has_alpha := (if bits = 8 then GL_Upload8 (d_8to24table s) pic w h
                                         else GL_Upload32 pic w h bits)\<rparr>;
          img = img\<lparr>sl := 0, sh := 1, tl := 0, th := 1\<rparr>
      in (i, s\<lparr>gltextures := (gltextures s)[i := img]\<rparr>))"

definition GL_LoadPic ::
  "gl_env \<Rightarrow> string \<Rightarrow> 8 word list \<Rightarrow> int \<Rightarrow> int \<Rightarrow> imagetype_t \<Rightarrow> int \<Rightarrow> gl_state
     \<Rightarrow> error + (nat \<times> gl_state)" where
  "GL_LoadPic env nm pic w h ty bits s =
     (let i = find_free (gltextures s) (numgltextures s) 0
      in if i = numgltextures s \<and> numgltextures s = MAX_GLTEXTURES s
         then Inl (ERR_DROP ''MAX_GLTEXTURES'')
         else if length nm \<ge> MAX_QPATH env
         then Inl (ERR_DROP (''Draw_LoadPic: '' @ [CHR 0x22] @ nm @ [CHR 0x22] @ '' is too long''))
         else
           let s = (if i = numgltextures s then s\<lparr>numgltextures := numgltextures s + 1\<rparr> else s);
               img = (gltextures s ! i)\<lparr>name := nm,
                          registration_sequence := global_registration_sequence s,
                          width := w, height := h, type := ty\<rparr>;
               img = img\<lparr>width := fst (hires_size env nm w h),
                              height := snd (hires_size env nm w h)\<rparr>;
               pic = (if ty = it_skin \<and> bits = 8 then R_FloodFillSkin env pic w h else pic)
           in if type img = it_pic \<and> width img < 64 \<and> height img < 64 \<and> bits = 8
              then (case Scrap_AllocBlock (scrap_allocated s) (width img) (height img) of
                      Inl e \<Rightarrow> Inl e
                    | Inr (None, alloc) \<Rightarrow> Inr (GL_LoadPic_nonscrap env i img pic w h bits s)
                    | Inr (Some (tn, x, y), alloc) \<Rightarrow>
                        if int (length pic) < max 0 (width img) * max 0 (height img)
                        then Inl (Undefined ''GL_LoadPic: read past the end of pic'')
                        else
                          let texels = scrap_copy (scrap_texels s) pic x y
                                         (width img) (height img) 0 0;
                              img = img\<lparr>texnum := TEXNUM_SCRAPS env + tn, has_alpha := True,
                                        sl := (real_of_int x + 0.01) / real_of_int BLOCK_WIDTH,
                                        sh := (real_of_int x + real_of_int (width img) - 0.01)
                                                / real_of_int BLOCK_WIDTH,
                                        tl := (real_of_int y + 0.01) / real_of_int BLOCK_WIDTH,
                                        th := (real_of_int y + real_of_int (height img) - 0.01)
                                                / real_of_int BLOCK_WIDTH\<rparr>
                          in Inr (i, s\<lparr>gltextures := (gltextures s)[i := img],
                                        scrap_allocated := alloc, scrap_texels := texels,
                                        scrap_dirty := True\<rparr>))
              else Inr (GL_LoadPic_nonscrap env i img pic w h bits s))"

subsection \<open>\<^verbatim>\<open>LoadTGA\<close>\<close>




subsection \<open>\<^verbatim>\<open>GL_LoadWal\<close> and \<^verbatim>\<open>GL_FindImage\<close>\<close>






subsection \<open>\<^verbatim>\<open>GL_FreeUnusedImages\<close>\<close>

text \<open>\<^verbatim>\<open>p->registration_sequence = registration_sequence\<close> through an img pointer \<open>p\<close>.\<close>

definition touch_image :: "nat option \<Rightarrow> gl_state \<Rightarrow> error + gl_state" where
  "touch_image p s =
     (case p of
        None \<Rightarrow> Inl (Undefined ''NULL image pointer'')
      | Some i \<Rightarrow>
          if i < length (gltextures s)
          then Inr (s\<lparr>gltextures := (gltextures s)
                      [i := (gltextures s ! i)\<lparr>registration_sequence :=
                              global_registration_sequence s\<rparr>]\<rparr>)
          else Inl (Undefined ''image pointer outside gltextures''))"

text \<open>The loop over \<^verbatim>\<open>r_particletexture[0 .. PT_MAX-1]\<close>.\<close>

fun touch_all :: "nat option list \<Rightarrow> gl_state \<Rightarrow> error + gl_state" where
  "touch_all [] s = Inr s"
| "touch_all (p # ps) s =
     (case touch_image p s of Inl e \<Rightarrow> Inl e | Inr s' \<Rightarrow> touch_all ps s')"

text \<open>
  The sweep loop. Besides the state it returns the texture numbers handed to
  \<^verbatim>\<open>qglDeleteTextures\<close>, in order.
\<close>

function sweep_loop :: "nat \<Rightarrow> int list \<Rightarrow> gl_state \<Rightarrow> int list \<times> gl_state" where
  "sweep_loop i freed s =
     (if i < numgltextures s
      then (let img = gltextures s ! i
            in if registration_sequence img = global_registration_sequence s
               then sweep_loop (Suc i) freed s
               else if registration_sequence img = 0
               then sweep_loop (Suc i) freed s
               else if type img = it_pic
               then sweep_loop (Suc i) freed s
               else sweep_loop (Suc i) (freed @ [texnum img])
                      (s\<lparr>gltextures := (gltextures s)[i := image_zero]\<rparr>))
      else (freed, s))"
  by pat_completeness auto
termination
  by (relation "measure (\<lambda>(i, freed, s). numgltextures s - i)") auto

declare sweep_loop.simps [simp del]

definition GL_FreeUnusedImages :: "gl_state \<Rightarrow> error + (int list \<times> gl_state)" where
  "GL_FreeUnusedImages s =
     (case touch_image (r_notexture s) s of
        Inl e \<Rightarrow> Inl e
      | Inr s1 \<Rightarrow>
          (case touch_all (r_particletexture s1) s1 of
             Inl e \<Rightarrow> Inl e
           | Inr s2 \<Rightarrow> Inr (sweep_loop 0 [] s2)))"

text \<open>The images \<^verbatim>\<open>GL_ImageList_f\<close> counts: the slots in use with a positive texnum.\<close>

definition image_count :: "gl_state \<Rightarrow> nat" where
  "image_count s = length (filter (\<lambda>im. texnum im > 0) (take (numgltextures s) (gltextures s)))"

text \<open>
  Two notions for reasoning about the sweep: a slot the loop skips (used in this
  sequence, free, or a pic), and a pointer whose image carries the current sequence.
\<close>

definition settled :: "gl_state \<Rightarrow> nat \<Rightarrow> bool" where
  "settled s i \<longleftrightarrow>
     registration_sequence (gltextures s ! i) = global_registration_sequence s
     \<or> registration_sequence (gltextures s ! i) = 0 \<or> type (gltextures s ! i) = it_pic"

definition touched :: "gl_state \<Rightarrow> nat option \<Rightarrow> bool" where
  "touched s p =
     (case p of
        None \<Rightarrow> False
      | Some i \<Rightarrow> i < length (gltextures s)
          \<and> registration_sequence (gltextures s ! i) = global_registration_sequence s)"

section \<open>Verification\<close>

subsection \<open>The reflector list\<close>

lemma refl_is_dup_iff:
  "refl_is_dup s Z i \<longleftrightarrow> (\<exists>k. i \<le> k \<and> k < g_num_refl s \<and> g_refl_Z s ! k = Z)"
proof (induction s Z i rule: refl_is_dup.induct)
  case (1 s Z i)
  show ?case
  proof (cases "i < g_num_refl s")
    case False
    then show ?thesis by (subst refl_is_dup.simps) auto
  next
    case True
    show ?thesis
    proof (cases "g_refl_Z s ! i = Z")
      case True
      with \<open>i < g_num_refl s\<close> show ?thesis by (subst refl_is_dup.simps) auto
    next
      case False
      have "refl_is_dup s Z i = refl_is_dup s Z (Suc i)"
        using True False by (subst refl_is_dup.simps) simp
      also have "\<dots> \<longleftrightarrow> (\<exists>k. Suc i \<le> k \<and> k < g_num_refl s \<and> g_refl_Z s ! k = Z)"
        using "1.IH" True False by simp
      also have "\<dots> \<longleftrightarrow> (\<exists>k. i \<le> k \<and> k < g_num_refl s \<and> g_refl_Z s ! k = Z)"
        using False by (metis Suc_leD Suc_leI le_neq_implies_less)
      finally show ?thesis .
    qed
  qed
qed

lemma refl_is_dup_set:
  assumes "g_num_refl s \<le> length (g_refl_Z s)"
  shows "refl_is_dup s Z 0 \<longleftrightarrow> Z \<in> set (refl_list s)"
proof -
  have len: "length (take (g_num_refl s) (g_refl_Z s)) = g_num_refl s"
    using assms by simp
  have "Z \<in> set (refl_list s) \<longleftrightarrow>
      (\<exists>k<g_num_refl s. take (g_num_refl s) (g_refl_Z s) ! k = Z)"
    unfolding refl_list_def in_set_conv_nth len by blast
  also have "\<dots> \<longleftrightarrow> (\<exists>k<g_num_refl s. g_refl_Z s ! k = Z)"
    by (metis nth_take)
  finally show ?thesis
    by (simp add: refl_is_dup_iff)
qed

lemma refl_list_length:
  "g_num_refl s \<le> length (g_refl_Z s) \<Longrightarrow> length (refl_list s) = g_num_refl s"
  by (simp add: refl_list_def)

lemma refl_list_add:
  assumes "g_num_refl s \<le> MAX_REFL" "length (g_refl_Z s) = MAX_REFL"
  shows "refl_list (R_add_refl Z s) =
     (if Z \<in> set (refl_list s) \<or> length (refl_list s) = MAX_REFL then refl_list s
      else refl_list s @ [Z])"
proof -
  have le: "g_num_refl s \<le> length (g_refl_Z s)" using assms by simp
  note dup = refl_is_dup_set[OF le, of Z]
  note len = refl_list_length[OF le]
  show ?thesis
  proof (cases "Z \<in> set (refl_list s)")
    case True
    then show ?thesis by (simp add: R_add_refl_def dup)
  next
    case notin: False
    show ?thesis
    proof (cases "g_num_refl s < MAX_REFL")
      case False
      then have "g_num_refl s = MAX_REFL" using assms by simp
      then show ?thesis using notin by (simp add: R_add_refl_def dup len)
    next
      case True
      then have lt: "g_num_refl s < length (g_refl_Z s)" using assms by simp
      have "refl_list (R_add_refl Z s)
          = take (Suc (g_num_refl s)) ((g_refl_Z s)[g_num_refl s := Z])"
        using notin True by (simp add: R_add_refl_def dup refl_list_def)
      also have "\<dots> = take (g_num_refl s) (g_refl_Z s) @ [Z]"
        using lt by (simp add: take_Suc_conv_app_nth)
      finally show ?thesis using notin True by (simp add: len refl_list_def)
    qed
  qed
qed

lemma refl_add_inv:
  assumes "g_num_refl s \<le> MAX_REFL" "length (g_refl_Z s) = MAX_REFL"
  shows "g_num_refl (R_add_refl Z s) \<le> MAX_REFL \<and> length (g_refl_Z (R_add_refl Z s)) = MAX_REFL"
  using assms by (simp add: R_add_refl_def)

lemma first_seen_set: "set (first_seen Zs) = set Zs"
  by (induction Zs) auto

lemma first_seen_distinct: "distinct (first_seen Zs)"
  by (induction Zs) (auto simp: first_seen_set)

lemma first_seen_snoc:
  "first_seen (Zs @ [Z]) = first_seen Zs @ (if Z \<in> set Zs then [] else [Z])"
  by (induction Zs) auto

lemma refl_pass_snoc: "refl_pass s (Zs @ [Z]) = R_add_refl Z (refl_pass s Zs)"
  by (simp add: refl_pass_def)

lemma take_snoc_step:
  "(if Z \<in> set (take n xs) \<or> length (take n xs) = n then take n xs else take n xs @ [Z])
     = take n (xs @ (if Z \<in> set xs then [] else [Z]))"
proof (cases "length xs < n")
  case True
  then show ?thesis by auto
next
  case False
  then show ?thesis by (auto simp: min_def)
qed

lemma refl_pass_inv:
  assumes "length (g_refl_Z s) = MAX_REFL"
  shows "g_num_refl (refl_pass s Zs) \<le> MAX_REFL \<and> length (g_refl_Z (refl_pass s Zs)) = MAX_REFL
     \<and> refl_list (refl_pass s Zs) = take MAX_REFL (first_seen Zs)"
proof (induction Zs rule: rev_induct)
  case Nil
  show ?case using assms by (simp add: refl_pass_def R_clear_refl_def refl_list_def)
next
  case (snoc Z Zs)
  let ?t = "refl_pass s Zs"
  have inv: "g_num_refl ?t \<le> MAX_REFL" "length (g_refl_Z ?t) = MAX_REFL"
    and l: "refl_list ?t = take MAX_REFL (first_seen Zs)"
    using snoc by auto
  have "refl_list (R_add_refl Z ?t) = take MAX_REFL (first_seen (Zs @ [Z]))"
    unfolding refl_list_add[OF inv] first_seen_snoc l
    using take_snoc_step[of Z MAX_REFL "first_seen Zs"] by (simp add: first_seen_set)
  then show ?case using refl_add_inv[OF inv] by (simp add: refl_pass_snoc)
qed

lemma refl_add_same:
  assumes "g_num_refl s \<le> length (g_refl_Z s)"
    and "Z \<in> set (refl_list s) \<or> g_num_refl s = MAX_REFL"
  shows "R_add_refl Z s = s"
  using assms by (auto simp: R_add_refl_def refl_is_dup_set)

text \<open>
  Claim C2. After \<^verbatim>\<open>R_clear_refl\<close> and any sequence of \<^verbatim>\<open>R_add_refl\<close> calls the list holds
  at most \<^verbatim>\<open>MAX_REFL\<close> pairwise distinct Z values, namely the first \<^verbatim>\<open>MAX_REFL\<close> values in
  discovery order; adding a Z that is present, or any Z when the list is full, leaves
  the whole state unchanged, and otherwise the new Z is appended.
\<close>

theorem reflector_list_invariant:
  assumes "length (g_refl_Z s0) = MAX_REFL"
  shows "length (refl_list (refl_pass s0 Zs)) \<le> MAX_REFL
     \<and> distinct (refl_list (refl_pass s0 Zs))
     \<and> refl_list (refl_pass s0 Zs) = take MAX_REFL (first_seen Zs)
     \<and> (Z \<in> set (refl_list (refl_pass s0 Zs)) \<longrightarrow> R_add_refl Z (refl_pass s0 Zs) = refl_pass s0 Zs)
     \<and> (length (refl_list (refl_pass s0 Zs)) = MAX_REFL \<longrightarrow>
          R_add_refl Z (refl_pass s0 Zs) = refl_pass s0 Zs)
     \<and> (Z \<notin> set (refl_list (refl_pass s0 Zs)) \<and> length (refl_list (refl_pass s0 Zs)) < MAX_REFL \<longrightarrow>
          refl_list (R_add_refl Z (refl_pass s0 Zs)) = refl_list (refl_pass s0 Zs) @ [Z])"
proof -
  let ?t = "refl_pass s0 Zs"
  have inv: "g_num_refl ?t \<le> MAX_REFL" "length (g_refl_Z ?t) = MAX_REFL"
    and l: "refl_list ?t = take MAX_REFL (first_seen Zs)"
    using refl_pass_inv[OF assms, of Zs] by auto
  have len: "length (refl_list ?t) = g_num_refl ?t"
    using inv by (simp add: refl_list_def)
  have le: "g_num_refl ?t \<le> length (g_refl_Z ?t)" using inv by simp
  have d: "distinct (refl_list ?t)"
    unfolding l by (rule distinct_take) (rule first_seen_distinct)
  show ?thesis
    using inv l d len refl_add_same[OF le, of Z] refl_list_add[OF inv, of Z]
    by auto
qed

theorem reflector_list_invariant_witness:
  "refl_list (refl_pass \<lparr>g_num_refl = 1, g_refl_Z = [7, 7]\<rparr> [64, 64, -8, 64, 128, -8]) = [64, -8]
   \<and> R_add_refl 128 (refl_pass \<lparr>g_num_refl = 1, g_refl_Z = [7, 7]\<rparr> [64, -8])
       = refl_pass \<lparr>g_num_refl = 1, g_refl_Z = [7, 7]\<rparr> [64, -8]
   \<and> refl_list (R_add_refl 5 (refl_pass \<lparr>g_num_refl = 1, g_refl_Z = [7, 7]\<rparr> [64])) = [64, 5]"
proof -
  let ?s0 = "\<lparr>g_num_refl = 1, g_refl_Z = [7, 7 :: real]\<rparr>"
  have h: "length (g_refl_Z ?s0) = MAX_REFL" by (simp add: MAX_REFL_def)
  have a: "refl_list (refl_pass ?s0 [64, 64, -8, 64, 128, -8]) = [64, -8]"
    using reflector_list_invariant[OF h, of "[64, 64, -8, 64, 128, -8]" 0]
    by (simp add: MAX_REFL_def)
  have b1: "refl_list (refl_pass ?s0 [64, -8]) = [64, -8]"
    using reflector_list_invariant[OF h, of "[64, -8]" 128] by (simp add: MAX_REFL_def)
  have b: "R_add_refl 128 (refl_pass ?s0 [64, -8]) = refl_pass ?s0 [64, -8]"
    using reflector_list_invariant[OF h, of "[64, -8]" 128] b1 by (simp add: MAX_REFL_def)
  have c1: "refl_list (refl_pass ?s0 [64]) = [64]"
    using reflector_list_invariant[OF h, of "[64]" 5] by (simp add: MAX_REFL_def)
  have c: "refl_list (R_add_refl 5 (refl_pass ?s0 [64])) = [64, 5]"
    using reflector_list_invariant[OF h, of "[64]" 5] c1 by (simp add: MAX_REFL_def)
  show ?thesis using a b c by simp
qed

subsection \<open>Rounding to a floating-point format\<close>

lemma round_even_int: "round_even (real_of_int n) = n"
  by (simp add: round_even_def)

lemma round_even_err: "\<bar>real_of_int (round_even q) - q\<bar> \<le> 1 / 2"
proof -
  have "real_of_int \<lfloor>q\<rfloor> \<le> q" "q < real_of_int \<lfloor>q\<rfloor> + 1" by linarith+
  then show ?thesis by (auto simp: round_even_def Let_def)
qed

lemma round_even_le:
  assumes "q \<le> real_of_int n"
  shows "round_even q \<le> n"
proof -
  have "real_of_int (round_even q) \<le> q + 1 / 2" using round_even_err[of q] by linarith
  then have "real_of_int (round_even q) < real_of_int n + 1" using assms by linarith
  then show ?thesis by linarith
qed

lemma round_even_ge:
  assumes "real_of_int n \<le> q"
  shows "n \<le> round_even q"
proof -
  have "q - 1 / 2 \<le> real_of_int (round_even q)" using round_even_err[of q] by linarith
  then have "real_of_int n - 1 < real_of_int (round_even q)" using assms by linarith
  then show ?thesis by linarith
qed

lemma pow2_pos: "0 < pow2 e"
  by (simp add: pow2_def)

lemma pow2_nonpos: "e \<le> 0 \<Longrightarrow> pow2 e = 1 / 2 ^ nat (- e)"
  by (cases "e = 0") (simp_all add: pow2_def)

lemma pow2_mono:
  assumes "a \<le> b" "b \<le> 0"
  shows "pow2 a \<le> pow2 b"
proof -
  have "nat (- b) \<le> nat (- a)" using assms by simp
  then have "(2::real) ^ nat (- b) \<le> 2 ^ nat (- a)" by (intro power_increasing) simp_all
  then have "1 / (2::real) ^ nat (- a) \<le> 1 / 2 ^ nat (- b)"
    by (intro divide_left_mono) simp_all
  then show ?thesis using assms by (simp add: pow2_nonpos)
qed

lemma ilog2_unit: "\<bar>x\<bar> \<le> 1 \<Longrightarrow> ilog2 x \<le> 0"
proof (cases "1 \<le> \<bar>x\<bar>")
  case True
  assume "\<bar>x\<bar> \<le> 1"
  with True have "\<bar>x\<bar> = 1" by simp
  then show ?thesis by (simp add: ilog2_def bitlen_alt_def)
next
  case False
  then show ?thesis using bitlen_nonneg[of "\<lceil>1 / \<bar>x\<bar>\<rceil> - 1"] by (simp add: ilog2_def)
qed

lemma ilog2_int:
  assumes "\<bar>n\<bar> < 2 ^ p" "1 \<le> p"
  shows "ilog2 (real_of_int n) \<le> int p - 1"
proof (cases "n = 0")
  case True
  then show ?thesis using assms(2) by (simp add: ilog2_def bitlen_alt_def)
next
  case False
  then have "1 \<le> \<bar>n\<bar>" by linarith
  then have "real_of_int 1 \<le> real_of_int \<bar>n\<bar>" by (simp only: of_int_le_iff)
  then have one: "1 \<le> \<bar>real_of_int n\<bar>" by simp
  have "\<lfloor>\<bar>real_of_int n\<bar>\<rfloor> = \<bar>n\<bar>" by (metis floor_of_int of_int_abs)
  moreover have "bitlen \<bar>n\<bar> \<le> int p" using assms(1) by (simp add: bitlen_le_iff_power)
  ultimately show ?thesis using one by (simp add: ilog2_def)
qed

text \<open>An integer with fewer than \<open>p\<close> bits is a number of the format.\<close>

lemma fl_round_int:
  assumes "\<bar>n\<bar> < 2 ^ p" "emin \<le> 0" "1 \<le> p"
  shows "fl_round p emin (real_of_int n) = real_of_int n"
proof -
  define e where "e = max emin (ilog2 (real_of_int n))"
  have "e \<le> int p - 1" using ilog2_int[OF assms(1,3)] assms(2,3) by (simp add: e_def)
  then have le: "e - int p + 1 \<le> 0" by simp
  define k where "k = nat (- (e - int p + 1))"
  have u: "pow2 (e - int p + 1) = 1 / 2 ^ k" using le by (simp add: pow2_nonpos k_def)
  have "real_of_int n / (1 / 2 ^ k) = real_of_int (n * 2 ^ k)" by simp
  then have "round_even (real_of_int n / (1 / 2 ^ k)) = n * 2 ^ k"
    by (simp only: round_even_int)
  then have "real_of_int (round_even (real_of_int n / (1 / 2 ^ k))) * (1 / 2 ^ k) = real_of_int n"
    by simp
  then show ?thesis
    unfolding fl_round_def Let_def e_def[symmetric] u .
qed

text \<open>Rounding a number of the unit interval stays there and moves it by at most \<open>2\<^sup>-\<^sup>p\<close>.\<close>

lemma fl_round_unit:
  assumes "0 \<le> x" "x \<le> 1" "emin \<le> 0" "1 \<le> p"
  shows "0 \<le> fl_round p emin x \<and> fl_round p emin x \<le> 1
     \<and> \<bar>fl_round p emin x - x\<bar> \<le> 1 / 2 ^ p"
proof -
  define e where "e = max emin (ilog2 x)"
  have "ilog2 x \<le> 0" using assms(1,2) by (intro ilog2_unit) simp
  then have e0: "e \<le> 0" using assms(3) by (simp add: e_def)
  then have le: "e - int p + 1 \<le> 0" using assms(4) by simp
  define k where "k = nat (- (e - int p + 1))"
  define u :: real where "u = 1 / 2 ^ k"
  have u: "pow2 (e - int p + 1) = u" using le by (simp add: pow2_nonpos k_def u_def)
  have upos: "0 < u" by (simp add: u_def)
  have kp: "p - 1 \<le> k" using e0 assms(4) by (simp add: k_def)
  have "(2::real) ^ (p - 1) \<le> 2 ^ k" using kp by (intro power_increasing) simp_all
  then have "u \<le> 1 / 2 ^ (p - 1)" unfolding u_def by (intro divide_left_mono) simp_all
  also have "(1::real) / 2 ^ (p - 1) = 2 / 2 ^ p"
    using assms(4) by (cases p) simp_all
  finally have ub: "u / 2 \<le> 1 / 2 ^ p" by simp
  define m where "m = round_even (x / u)"
  have res: "fl_round p emin x = real_of_int m * u"
    unfolding fl_round_def Let_def e_def[symmetric] u m_def ..
  have "real_of_int 0 \<le> x / u" using assms(1) upos by simp
  then have m0: "0 \<le> m" unfolding m_def by (rule round_even_ge)
  have "x / u \<le> 1 / u" using assms(2) upos by (simp add: divide_right_mono)
  also have "1 / u = real_of_int (2 ^ k)" by (simp add: u_def)
  finally have "m \<le> 2 ^ k" unfolding m_def by (rule round_even_le)
  then have "real_of_int m \<le> 2 ^ k" by (metis of_int_le_iff of_int_numeral of_int_power)
  then have "real_of_int m * u \<le> 2 ^ k * u" using upos by (intro mult_right_mono) simp_all
  then have m1: "real_of_int m * u \<le> 1" by (simp add: u_def)
  have "\<bar>real_of_int m * u - x\<bar> = \<bar>real_of_int m - x / u\<bar> * u"
  proof -
    have "real_of_int m * u - x = (real_of_int m - x / u) * u"
      using upos by (simp add: left_diff_distrib)
    then show ?thesis using upos by (simp add: abs_mult)
  qed
  also have "\<dots> \<le> 1 / 2 * u"
    using round_even_err[of "x / u"] upos unfolding m_def by (intro mult_right_mono) simp_all
  finally have err: "\<bar>real_of_int m * u - x\<bar> \<le> 1 / 2 ^ p" using ub by simp
  have "0 \<le> real_of_int m * u" using m0 upos by simp
  then show ?thesis using m1 err unfolding res by simp
qed

lemma to_float_int: "\<bar>n\<bar> < 2 ^ 24 \<Longrightarrow> to_float (real_of_int n) = real_of_int n"
  unfolding to_float_def by (rule fl_round_int) simp_all

lemma to_float_unit:
  assumes "0 \<le> x" "x \<le> 1"
  shows "0 \<le> to_float x \<and> to_float x \<le> 1 \<and> \<bar>to_float x - x\<bar> \<le> 1 / 2 ^ 24"
  unfolding to_float_def using assms by (intro fl_round_unit) simp_all

lemma to_double_unit:
  assumes "0 \<le> x" "x \<le> 1"
  shows "0 \<le> to_double x \<and> to_double x \<le> 1 \<and> \<bar>to_double x - x\<bar> \<le> 1 / 2 ^ 53"
  unfolding to_double_def using assms by (intro fl_round_unit) simp_all

text \<open>A double operation stored in a float, on the unit interval.\<close>

lemma store_unit:
  assumes "0 \<le> x" "x \<le> 1"
  shows "0 \<le> to_float (to_double x) \<and> to_float (to_double x) \<le> 1
     \<and> \<bar>to_float (to_double x) - x\<bar> \<le> 1 / 2 ^ 24 + 1 / 2 ^ 53"
proof -
  note d = to_double_unit[OF assms]
  from d have f: "0 \<le> to_float (to_double x) \<and> to_float (to_double x) \<le> 1
      \<and> \<bar>to_float (to_double x) - to_double x\<bar> \<le> 1 / 2 ^ 24"
    by (intro to_float_unit) simp_all
  have "\<bar>to_float (to_double x) - x\<bar>
      \<le> \<bar>to_float (to_double x) - to_double x\<bar> + \<bar>to_double x - x\<bar>" by linarith
  then show ?thesis using d f by linarith
qed


subsection \<open>The palette's desaturation factor\<close>

lemma nested_if_is_max:
  fixes a b c :: real
  shows "(if a > b then (if a > c then a else if b > c then b else c)
          else (if b > c then b else c)) = max a (max b c)"
  by (simp add: max_def)

lemma max_gun_delta_real:
  "max_gun_delta r g b
     = max (real_of_int \<bar>r - g\<bar>) (max (real_of_int \<bar>g - b\<bar>) (real_of_int \<bar>b - r\<bar>))"
  unfolding max_gun_delta_def by (simp only: of_int_max)

lemma byte_diff_small:
  assumes "0 \<le> x" "x \<le> 255" "0 \<le> y" "y \<le> (255::int)"
  shows "\<bar>x - y\<bar> \<le> 255"
  using assms by arith

lemma byte_diff_float:
  assumes "0 \<le> x" "x \<le> 255" "0 \<le> y" "y \<le> (255::int)"
  shows "to_float (real_of_int \<bar>x - y\<bar>) = real_of_int \<bar>x - y\<bar>"
proof -
  have "\<bar>x - y\<bar> \<le> 255" using assms by arith
  then have "\<bar>\<bar>x - y\<bar>\<bar> < 2 ^ 24" by simp
  then show ?thesis by (rule to_float_int)
qed

lemma max_gun_delta_range:
  assumes "0 \<le> r" "r \<le> 255" "0 \<le> g" "g \<le> 255" "0 \<le> b" "b \<le> 255"
  shows "0 \<le> max_gun_delta r g b \<and> max_gun_delta r g b \<le> 255"
proof -
  have "0 \<le> max \<bar>r - g\<bar> (max \<bar>g - b\<bar> \<bar>b - r\<bar>)" by simp
  moreover have "max \<bar>r - g\<bar> (max \<bar>g - b\<bar> \<bar>b - r\<bar>) \<le> 255"
    using byte_diff_small[OF assms(1,2,3,4)] byte_diff_small[OF assms(3,4,5,6)]
      byte_diff_small[OF assms(5,6,1,2)] by simp
  ultimately show ?thesis unfolding max_gun_delta_def by simp
qed

text \<open>The three assignments to \<^verbatim>\<open>sat\<close>, started from the greatest distance \<open>d\<close>.\<close>

lemma sat_steps:
  assumes "0 \<le> d" "d \<le> 255"
  shows "\<bar>to_float (to_double (to_float (to_double (1 - to_float (to_double (d / 255))))
             * (1 - 0.75))) - (1 - d / 255) * 0.25\<bar> \<le> 1 / 2 ^ 23"
proof -
  define eps :: real where "eps = 1 / 2 ^ 24 + 1 / 2 ^ 53"
  define s1 where "s1 = to_float (to_double (d / 255))"
  define s2 where "s2 = to_float (to_double (1 - s1))"
  define s3 where "s3 = to_float (to_double (s2 * (1 - 0.75)))"
  have "0 \<le> d / 255" "d / 255 \<le> 1" using assms by simp_all
  from store_unit[OF this]
  have a1: "0 \<le> s1" "s1 \<le> 1" "\<bar>s1 - d / 255\<bar> \<le> eps" by (simp_all add: s1_def eps_def)
  have "0 \<le> 1 - s1" "1 - s1 \<le> 1" using a1 by simp_all
  from store_unit[OF this]
  have a2: "0 \<le> s2" "s2 \<le> 1" "\<bar>s2 - (1 - s1)\<bar> \<le> eps" by (simp_all add: s2_def eps_def)
  have "0 \<le> s2 * (1 - 0.75)" "s2 * (1 - 0.75) \<le> 1" using a2 by simp_all
  from store_unit[OF this]
  have a3: "\<bar>s3 - s2 * (1 - 0.75)\<bar> \<le> eps" by (simp add: s3_def eps_def)
  have e0: "0 \<le> eps" by (simp add: eps_def)
  have a3': "\<bar>s3 - s2 / 4\<bar> \<le> eps" using a3 by simp
  have b1: "s1 - d / 255 \<le> eps" "- (s1 - d / 255) \<le> eps"
    using a1(3) unfolding abs_le_iff by blast+
  have b2: "s2 - (1 - s1) \<le> eps" "- (s2 - (1 - s1)) \<le> eps"
    using a2(3) unfolding abs_le_iff by blast+
  have b3: "s3 - s2 / 4 \<le> eps" "- (s3 - s2 / 4) \<le> eps"
    using a3' unfolding abs_le_iff by blast+
  have q: "(1 - d / 255) / 4 = 1 / 4 - (d / 255) / 4" by (simp add: diff_divide_distrib)
  have "s3 - (1 - d / 255) / 4 \<le> 3 / 2 * eps" unfolding q using b1 b2 b3 e0 by linarith
  moreover have "- (s3 - (1 - d / 255) / 4) \<le> 3 / 2 * eps"
    unfolding q using b1 b2 b3 e0 by linarith
  ultimately have "\<bar>s3 - (1 - d / 255) / 4\<bar> \<le> 3 / 2 * eps"
    unfolding abs_le_iff by blast
  then have "\<bar>s3 - (1 - d / 255) * 0.25\<bar> \<le> 3 / 2 * eps" by simp
  also have "3 / 2 * eps \<le> 1 / 2 ^ 23" by (simp add: eps_def)
  finally show ?thesis by (simp add: s3_def s2_def s1_def)
qed

lemma sat_start:
  assumes "0 \<le> r" "r \<le> 255" "0 \<le> g" "g \<le> 255" "0 \<le> b" "b \<le> 255"
  shows "Draw_GetPalette_sat r g b =
     to_float (to_double (to_float (to_double (1 - to_float (to_double
       (max_gun_delta r g b / 255)))) * (1 - 0.75)))"
proof -
  have d: "to_float (real_of_int \<bar>r - g\<bar>) = real_of_int \<bar>r - g\<bar>"
    "to_float (real_of_int \<bar>g - b\<bar>) = real_of_int \<bar>g - b\<bar>"
    "to_float (real_of_int \<bar>b - r\<bar>) = real_of_int \<bar>b - r\<bar>"
    by (rule byte_diff_float[OF assms(1,2,3,4)] byte_diff_float[OF assms(3,4,5,6)]
        byte_diff_float[OF assms(5,6,1,2)])+
  show ?thesis
    unfolding Draw_GetPalette_sat_def Let_def d nested_if_is_max max_gun_delta_real ..
qed

text \<open>
  One gun: for a byte \<open>x\<close> and the grey value of three bytes the distance is exact, so
  the new gun is \<open>x\<close> plus the distance times the factor, rounded twice and truncated.
\<close>

lemma gun_applies_factor:
  assumes "0 \<le> r" "r \<le> 255" "0 \<le> g" "g \<le> 255" "0 \<le> b" "b \<le> 255"
    and "0 \<le> x" "x \<le> 255"
  shows "Draw_GetPalette_gun (Draw_GetPalette_avg r g b) sat x =
     c_trunc (to_float (real_of_int x
        + to_float (real_of_int ((r + g + b + 2) div 3 - x) * sat)))"
proof -
  let ?a = "(r + g + b + 2) div 3"
  have a: "0 \<le> ?a" "?a \<le> 255" using assms by simp_all
  have "\<bar>?a\<bar> < 2 ^ 24" using a by simp
  then have avg: "Draw_GetPalette_avg r g b = real_of_int ?a"
    unfolding Draw_GetPalette_avg_def by (rule to_float_int)
  have "\<bar>x\<bar> < 2 ^ 24" using assms by simp
  then have x: "to_float (real_of_int x) = real_of_int x" by (rule to_float_int)
  have "\<bar>?a - x\<bar> < 2 ^ 24" using a assms(7,8) by simp
  then have "to_float (real_of_int (?a - x)) = real_of_int (?a - x)" by (rule to_float_int)
  then have dx: "to_float (real_of_int ?a - real_of_int x) = real_of_int (?a - x)" by simp
  show ?thesis
    unfolding Draw_GetPalette_gun_def Let_def avg x dx ..
qed

text \<open>
  Claim C4 (amended). For every palette entry the factor applied to the per-gun distances
  from grey is \<open>(1 - max_gun_delta/255) * 0.25\<close>, the existing saturation inverted first
  and the result scaled by a quarter, computed in the code's floating-point arithmetic
  (each of the three assignments a double operation stored in a float): it lies within
  \<open>2\<^sup>-\<^sup>2\<^sup>3\<close> of the exact value, and each gun of the stored entry is the old gun plus its
  distance from grey times this factor, rounded to float and truncated.
\<close>

theorem palette_sat_formula:
  "Draw_GetPalette_sat (uint pr) (uint pg) (uint pb) =
     to_float (to_double (to_float (to_double (1 - to_float (to_double
       (max_gun_delta (uint pr) (uint pg) (uint pb) / 255)))) * (1 - 0.75)))
   \<and> \<bar>Draw_GetPalette_sat (uint pr) (uint pg) (uint pb)
        - (1 - max_gun_delta (uint pr) (uint pg) (uint pb) / 255) * 0.25\<bar> \<le> 1 / 2 ^ 23
   \<and> Draw_GetPalette_entry pr pg pb =
       (let r = uint pr; g = uint pg; b = uint pb;
            sat = Draw_GetPalette_sat r g b;
            grey = (r + g + b + 2) div 3;
            gun = (\<lambda>x. c_trunc (to_float (real_of_int x
                          + to_float (real_of_int (grey - x) * sat))))
        in push_bit 24 255 + word_of_int (gun r) + push_bit 8 (word_of_int (gun g))
             + push_bit 16 (word_of_int (gun b)))"
proof -
  have r: "0 \<le> uint pr" "uint pr \<le> 255" using uint_lt2p[of pr] by simp_all
  have g: "0 \<le> uint pg" "uint pg \<le> 255" using uint_lt2p[of pg] by simp_all
  have b: "0 \<le> uint pb" "uint pb \<le> 255" using uint_lt2p[of pb] by simp_all
  note start = sat_start[OF r g b]
  note range = max_gun_delta_range[OF r g b]
  have bound: "\<bar>Draw_GetPalette_sat (uint pr) (uint pg) (uint pb)
        - (1 - max_gun_delta (uint pr) (uint pg) (uint pb) / 255) * 0.25\<bar> \<le> 1 / 2 ^ 23"
    unfolding start using range by (intro sat_steps) simp_all
  have entry: "Draw_GetPalette_entry pr pg pb =
       (let r = uint pr; g = uint pg; b = uint pb;
            sat = Draw_GetPalette_sat r g b;
            grey = (r + g + b + 2) div 3;
            gun = (\<lambda>x. c_trunc (to_float (real_of_int x
                          + to_float (real_of_int (grey - x) * sat))))
        in push_bit 24 255 + word_of_int (gun r) + push_bit 8 (word_of_int (gun g))
             + push_bit 16 (word_of_int (gun b)))"
    unfolding Draw_GetPalette_entry_def Let_def
      gun_applies_factor[OF r g b r] gun_applies_factor[OF r g b g] gun_applies_factor[OF r g b b] ..
  show ?thesis using start bound entry by blast
qed

lemma palette_entry_0_3_85:
  "Draw_GetPalette_sat 0 3 85 = 11184810 / 2 ^ 26 \<and> Draw_GetPalette_entry 0 3 85 = 0xFF4B0704"
  by code_simp

theorem palette_sat_formula_witness:
  "\<bar>11184810 / 2 ^ 26 - (1 - 85 / 255) * 0.25\<bar> \<le> (1::real) / 2 ^ 23
   \<and> Draw_GetPalette_sat 0 3 85 = 11184810 / 2 ^ 26
   \<and> Draw_GetPalette_entry 0 3 85 = 0xFF4B0704"
proof -
  have m: "max_gun_delta 0 3 85 = 85" by (simp add: max_gun_delta_def)
  show ?thesis
    using palette_sat_formula[of 0 3 85] palette_entry_0_3_85 m by simp
qed

text \<open>The spec's formula gives a different number already for a grey entry.\<close>

theorem palette_sat_counterexample:
  "Draw_GetPalette_sat 0 0 0 = 1 / 4 \<and> spec_sat_out 0 0 0 = 1
   \<and> Draw_GetPalette_sat 0 0 0 \<noteq> spec_sat_out 0 0 0"
  by code_simp

subsection \<open>Alpha classification in \<^verbatim>\<open>GL_Upload32\<close>\<close>

lemma alpha_scan_iff:
  "alpha_scan data c i \<longleftrightarrow> (\<exists>k. i \<le> k \<and> k < c \<and> data ! nat (4 * k + 3) \<noteq> 255)"
proof (induction data c i rule: alpha_scan.induct)
  case (1 data c i)
  show ?case
  proof (cases "i < c")
    case False
    then show ?thesis by (subst alpha_scan.simps) auto
  next
    case True
    show ?thesis
    proof (cases "data ! nat (4 * i + 3) \<noteq> 255")
      case True
      with \<open>i < c\<close> show ?thesis by (subst alpha_scan.simps) auto
    next
      case False
      have "alpha_scan data c i = alpha_scan data c (i + 1)"
        using True False by (subst alpha_scan.simps) simp
      also have "\<dots> \<longleftrightarrow> (\<exists>k. i + 1 \<le> k \<and> k < c \<and> data ! nat (4 * k + 3) \<noteq> 255)"
        using "1.IH" True False by simp
      also have "\<dots> \<longleftrightarrow> (\<exists>k. i \<le> k \<and> k < c \<and> data ! nat (4 * k + 3) \<noteq> 255)"
      proof
        assume "\<exists>k. i + 1 \<le> k \<and> k < c \<and> data ! nat (4 * k + 3) \<noteq> 255"
        then obtain k where "i + 1 \<le> k" "k < c" "data ! nat (4 * k + 3) \<noteq> 255" by blast
        then have "i \<le> k \<and> k < c \<and> data ! nat (4 * k + 3) \<noteq> 255" by simp
        then show "\<exists>k. i \<le> k \<and> k < c \<and> data ! nat (4 * k + 3) \<noteq> 255" by blast
      next
        assume "\<exists>k. i \<le> k \<and> k < c \<and> data ! nat (4 * k + 3) \<noteq> 255"
        then obtain k where k: "i \<le> k" "k < c" "data ! nat (4 * k + 3) \<noteq> 255" by blast
        with False have "k \<noteq> i" by auto
        with k have "i + 1 \<le> k \<and> k < c \<and> data ! nat (4 * k + 3) \<noteq> 255" by simp
        then show "\<exists>k. i + 1 \<le> k \<and> k < c \<and> data ! nat (4 * k + 3) \<noteq> 255" by blast
      qed
      finally show ?thesis .
    qed
  qed
qed

lemma upload32_iff:
  "GL_Upload32 data w h bpp \<longleftrightarrow>
     bpp \<noteq> 24 \<and> (\<exists>k. 0 \<le> k \<and> k < w * h \<and> pixel_alpha data k \<noteq> 255)"
  by (simp add: GL_Upload32_def GL_Upload32_samples_def Let_def alpha_scan_iff
      gl_alpha_format_def gl_solid_format_def pixel_alpha_def)

lemma opaque_image_length: "length (opaque_image n) = 4 * n"
  by (induction n) (simp_all add: opaque_image_def)

lemma opaque_image_nth: "k < n \<Longrightarrow> opaque_image n ! (4 * k + 3) = 255"
proof (induction n arbitrary: k)
  case 0
  then show ?case by simp
next
  case (Suc n)
  have unfold: "opaque_image (Suc n) = [200, 100, 50, 255] @ opaque_image n"
    by (simp add: opaque_image_def)
  show ?case
  proof (cases k)
    case 0
    then show ?thesis by (simp add: unfold)
  next
    case (Suc j)
    then have "j < n" using Suc.prems by simp
    then have "opaque_image n ! (4 * j + 3) = 255" by (rule Suc.IH)
    moreover have "4 * k + 3 = 4 + (4 * j + 3)" using Suc by simp
    moreover have "([200, 100, 50, 255] @ opaque_image n) ! (4 + (4 * j + 3))
        = opaque_image n ! (4 * j + 3)"
      by (simp add: nth_append add.commute)
    ultimately show ?thesis
      unfolding unfold by simp
  qed
qed

lemma opaque_image_alpha:
  assumes "0 \<le> k" "k < int n"
  shows "pixel_alpha (opaque_image n) k = 255"
proof -
  have "nat (4 * k + 3) = 4 * nat k + 3" using assms by simp
  moreover have "nat k < n" using assms by simp
  ultimately show ?thesis by (simp add: pixel_alpha_def opaque_image_nth)
qed

lemma opaque_upload: "\<not> GL_Upload32 (opaque_image 64) 8 8 32"
  unfolding upload32_iff using opaque_image_alpha[of _ 64] by auto

lemma changed_upload:
  assumes "j < 64"
  shows "GL_Upload32 ((opaque_image 64)[4 * j + 3 := 128]) 8 8 32"
proof -
  have "4 * j + 3 < length (opaque_image 64)"
    using assms by (simp add: opaque_image_length)
  then have "((opaque_image 64)[4 * j + 3 := 128]) ! (4 * j + 3) = 128"
    by simp
  moreover have "nat (4 * int j + 3) = 4 * j + 3" by simp
  ultimately have "pixel_alpha ((opaque_image 64)[4 * j + 3 := 128]) (int j) \<noteq> 255"
    by (simp add: pixel_alpha_def)
  moreover have "0 \<le> int j \<and> int j < 8 * 8" using assms by simp
  ultimately have "\<exists>k. 0 \<le> k \<and> k < 8 * 8
      \<and> pixel_alpha ((opaque_image 64)[4 * j + 3 := 128]) k \<noteq> 255"
    by blast
  then show ?thesis unfolding upload32_iff by simp
qed

text \<open>
  Claim C1. An image uploaded through the 32-bit upload path, \<^verbatim>\<open>GL_Upload32\<close> with the
  \<^verbatim>\<open>bpp\<close> its callers pass (8 from \<^verbatim>\<open>GL_Upload8\<close>, 32 for RGBA pictures; any value but 24, for
  which the buffer has no alpha bytes and the scan is skipped), is classified as
  alpha-format exactly when the scan finds, among its \<^verbatim>\<open>width*height\<close> pixels, an alpha byte
  other than 255. The 8x8 image of opaque pixels (200,100,50,255) has no alpha, and with
  the alpha byte of any one pixel set to 128 it has.
\<close>

theorem upload32_has_alpha:
  "(bpp \<noteq> 24 \<longrightarrow>
      (GL_Upload32 data w h bpp \<longleftrightarrow>
         (\<exists>k. 0 \<le> k \<and> k < w * h \<and> pixel_alpha data k \<noteq> 255)))
   \<and> \<not> GL_Upload32 (opaque_image 64) 8 8 32
   \<and> (j < 64 \<longrightarrow> GL_Upload32 ((opaque_image 64)[4 * j + 3 := 128]) 8 8 32)"
  using upload32_iff opaque_upload changed_upload by blast

theorem upload32_has_alpha_witness:
  "(32::int) \<noteq> 24 \<and> (5::nat) < 64
   \<and> GL_Upload32 ((opaque_image 64)[4 * 5 + 3 := 128]) 8 8 32
   \<and> (\<exists>k. 0 \<le> k \<and> k < 8 * 8 \<and> pixel_alpha ((opaque_image 64)[4 * 5 + 3 := 128]) k \<noteq> 255)
   \<and> \<not> GL_Upload32 (opaque_image 64) 8 8 32"
  using upload32_has_alpha[of 32 "(opaque_image 64)[4 * 5 + 3 := 128]" 8 8 5] by auto

subsection \<open>Screenshot naming\<close>

lemma shot_scan_spec:
  assumes "0 \<le> i" "i \<le> 100"
  shows "i \<le> shot_scan fs gd i \<and> shot_scan fs gd i \<le> 100
     \<and> (\<forall>j. i \<le> j \<and> j < shot_scan fs gd i \<longrightarrow> fs (checkname gd j) \<noteq> None)
     \<and> (shot_scan fs gd i < 100 \<longrightarrow> fs (checkname gd (shot_scan fs gd i)) = None)"
  using assms
proof (induction fs gd i rule: shot_scan.induct)
  case (1 fs gd i)
  show ?case
  proof (cases "i \<le> 99")
    case False
    then have "shot_scan fs gd i = i" by (subst shot_scan.simps) simp
    then show ?thesis using "1.prems" False by auto
  next
    case True
    show ?thesis
    proof (cases "fs (checkname gd i) = None")
      case True
      then have "shot_scan fs gd i = i" using \<open>i \<le> 99\<close> by (subst shot_scan.simps) simp
      then show ?thesis using "1.prems" True by auto
    next
      case False
      have eq: "shot_scan fs gd i = shot_scan fs gd (i + 1)"
        using \<open>i \<le> 99\<close> False by (subst shot_scan.simps) auto
      have IH: "i + 1 \<le> shot_scan fs gd (i + 1) \<and> shot_scan fs gd (i + 1) \<le> 100
         \<and> (\<forall>j. i + 1 \<le> j \<and> j < shot_scan fs gd (i + 1) \<longrightarrow> fs (checkname gd j) \<noteq> None)
         \<and> (shot_scan fs gd (i + 1) < 100 \<longrightarrow>
              fs (checkname gd (shot_scan fs gd (i + 1))) = None)"
        using "1.IH"[OF \<open>i \<le> 99\<close> False] "1.prems" \<open>i \<le> 99\<close> by simp
      have "\<forall>j. i \<le> j \<and> j < shot_scan fs gd (i + 1) \<longrightarrow> fs (checkname gd j) \<noteq> None"
      proof (intro allI impI)
        fix j assume j: "i \<le> j \<and> j < shot_scan fs gd (i + 1)"
        show "fs (checkname gd j) \<noteq> None"
        proof (cases "j = i")
          case True
          then show ?thesis using False by simp
        next
          case False
          then have "i + 1 \<le> j" using j by simp
          then show ?thesis using IH j by blast
        qed
      qed
      then show ?thesis unfolding eq using IH by simp
    qed
  qed
qed

lemma shot_scan_first_free:
  assumes "0 \<le> n" "n \<le> 99"
    and "\<forall>j. 0 \<le> j \<and> j < n \<longrightarrow> fs (checkname gd j) \<noteq> None"
    and "fs (checkname gd n) = None"
  shows "shot_scan fs gd 0 = n"
proof -
  let ?r = "shot_scan fs gd 0"
  have s: "0 \<le> ?r" "?r \<le> 100"
    "\<forall>j. 0 \<le> j \<and> j < ?r \<longrightarrow> fs (checkname gd j) \<noteq> None"
    "?r < 100 \<longrightarrow> fs (checkname gd ?r) = None"
    using shot_scan_spec[of 0 fs gd] by simp_all
  have "\<not> ?r < n"
  proof
    assume "?r < n"
    then have "fs (checkname gd ?r) = None" using s(4) assms(2) by simp
    moreover have "fs (checkname gd ?r) \<noteq> None" using assms(3) s(1) \<open>?r < n\<close> by blast
    ultimately show False by simp
  qed
  moreover have "\<not> n < ?r"
  proof
    assume "n < ?r"
    then have "fs (checkname gd n) \<noteq> None" using s(3) assms(1) by blast
    then show False using assms(4) by simp
  qed
  ultimately show ?thesis by simp
qed

lemma shot_scan_full:
  assumes "\<forall>j. 0 \<le> j \<and> j \<le> 99 \<longrightarrow> fs (checkname gd j) \<noteq> None"
  shows "shot_scan fs gd 0 = 100"
proof -
  let ?r = "shot_scan fs gd 0"
  have s: "0 \<le> ?r" "?r \<le> 100" "?r < 100 \<longrightarrow> fs (checkname gd ?r) = None"
    using shot_scan_spec[of 0 fs gd] by simp_all
  have "\<not> ?r < 100"
  proof
    assume "?r < 100"
    then have "fs (checkname gd ?r) = None" using s(3) by simp
    moreover have "fs (checkname gd ?r) \<noteq> None" using assms s(1) \<open>?r < 100\<close> by simp
    ultimately show False by simp
  qed
  then show ?thesis using s(2) by simp
qed

text \<open>
  Claim C3. The screenshot command writes to the first name quakeNN.tga, NN counted up
  from 00 to 99, for which no file exists. When all 100 names exist it prints
  ``SCR\_ScreenShot\_f: Couldn't create a file'', writes no file, and (the scrnshot
  directory being there) leaves the file system as it was.
\<close>

theorem screenshot_naming:
  "(0 \<le> n \<and> n \<le> 99 \<and> (\<forall>j. 0 \<le> j \<and> j < n \<longrightarrow> files st (checkname gd j) \<noteq> None)
      \<and> files st (checkname gd n) = None \<longrightarrow>
      files (GL_ScreenShot_f gd w h px gt st)
          = (files st)(checkname gd n \<mapsto> tga_buffer w h px gt)
      \<and> console (GL_ScreenShot_f gd w h px gt st)
          = console st @ [''Wrote '' @ picname n @ [CHR 0x0A]])
   \<and> ((\<forall>j. 0 \<le> j \<and> j \<le> 99 \<longrightarrow> files st (checkname gd j) \<noteq> None) \<longrightarrow>
      files (GL_ScreenShot_f gd w h px gt st) = files st
      \<and> console (GL_ScreenShot_f gd w h px gt st)
          = console st @ [''SCR_ScreenShot_f: Couldn't create a file'' @ [CHR 0x0A]]
      \<and> (gd @ ''/scrnshot'' \<in> dirs st \<longrightarrow>
           GL_ScreenShot_f gd w h px gt st
             = st\<lparr>console := console st @ [''SCR_ScreenShot_f: Couldn't create a file'' @ [CHR 0x0A]]\<rparr>))"
proof (intro conjI impI)
  assume a: "0 \<le> n \<and> n \<le> 99 \<and> (\<forall>j. 0 \<le> j \<and> j < n \<longrightarrow> files st (checkname gd j) \<noteq> None)
      \<and> files st (checkname gd n) = None"
  then have r: "shot_scan (files st) gd 0 = n"
    using shot_scan_first_free[of n "files st" gd] by blast
  have n: "n \<noteq> 100" using a by simp
  show "files (GL_ScreenShot_f gd w h px gt st)
          = (files st)(checkname gd n \<mapsto> tga_buffer w h px gt)"
    using r n by (simp add: GL_ScreenShot_f_def Sys_Mkdir_def Let_def)
  show "console (GL_ScreenShot_f gd w h px gt st)
          = console st @ [''Wrote '' @ picname n @ [CHR 0x0A]]"
    using r n by (simp add: GL_ScreenShot_f_def Sys_Mkdir_def Let_def)
next
  assume a: "\<forall>j. 0 \<le> j \<and> j \<le> 99 \<longrightarrow> files st (checkname gd j) \<noteq> None"
  then have r: "shot_scan (files st) gd 0 = 100" by (rule shot_scan_full)
  show "files (GL_ScreenShot_f gd w h px gt st) = files st"
    using r by (simp add: GL_ScreenShot_f_def Sys_Mkdir_def Let_def)
  show "console (GL_ScreenShot_f gd w h px gt st)
          = console st @ [''SCR_ScreenShot_f: Couldn't create a file'' @ [CHR 0x0A]]"
    using r by (simp add: GL_ScreenShot_f_def Sys_Mkdir_def Let_def)
  assume d: "gd @ ''/scrnshot'' \<in> dirs st"
  then have "insert (gd @ ''/scrnshot'') (dirs st) = dirs st" by (rule insert_absorb)
  then show "GL_ScreenShot_f gd w h px gt st
             = st\<lparr>console := console st @ [''SCR_ScreenShot_f: Couldn't create a file'' @ [CHR 0x0A]]\<rparr>"
    using r by (simp add: GL_ScreenShot_f_def Sys_Mkdir_def Let_def)
qed

theorem screenshot_naming_witness:
  "files (GL_ScreenShot_f ''baseq2'' 1 1 [1, 2, 3] None
       \<lparr>files = (\<lambda>p. if p \<in> {''baseq2/scrnshot/quake00.tga'', ''baseq2/scrnshot/quake01.tga'',
                               ''baseq2/scrnshot/quake02.tga'', ''baseq2/scrnshot/quake03.tga'',
                               ''baseq2/scrnshot/quake04.tga''} then Some [] else None),
        dirs = {''baseq2/scrnshot''}, console = []\<rparr>) ''baseq2/scrnshot/quake05.tga''
     = Some (tga_buffer 1 1 [1, 2, 3] None)
   \<and> GL_ScreenShot_f ''baseq2'' 1 1 [1, 2, 3] None
       \<lparr>files = (\<lambda>p. Some []), dirs = {''baseq2/scrnshot''}, console = []\<rparr>
     = \<lparr>files = (\<lambda>p. Some []), dirs = {''baseq2/scrnshot''},
        console = [''SCR_ScreenShot_f: Couldn't create a file'' @ [CHR 0x0A]]\<rparr>"
proof -
  let ?st = "\<lparr>files = (\<lambda>p. if p \<in> {''baseq2/scrnshot/quake00.tga'', ''baseq2/scrnshot/quake01.tga'',
                               ''baseq2/scrnshot/quake02.tga'', ''baseq2/scrnshot/quake03.tga'',
                               ''baseq2/scrnshot/quake04.tga''} then Some ([] :: 8 word list) else None),
        dirs = {''baseq2/scrnshot''}, console = []\<rparr>"
  let ?full = "\<lparr>files = (\<lambda>p. Some ([] :: 8 word list)), dirs = {''baseq2/scrnshot''}, console = []\<rparr>"
  have names: "checkname ''baseq2'' 0 = ''baseq2/scrnshot/quake00.tga''"
    "checkname ''baseq2'' 1 = ''baseq2/scrnshot/quake01.tga''"
    "checkname ''baseq2'' 2 = ''baseq2/scrnshot/quake02.tga''"
    "checkname ''baseq2'' 3 = ''baseq2/scrnshot/quake03.tga''"
    "checkname ''baseq2'' 4 = ''baseq2/scrnshot/quake04.tga''"
    "checkname ''baseq2'' 5 = ''baseq2/scrnshot/quake05.tga''"
    by (simp_all add: checkname_def picname_def digit_char_def)
  have h1: "\<forall>j. 0 \<le> j \<and> j < 5 \<longrightarrow> files ?st (checkname ''baseq2'' j) \<noteq> None"
  proof (intro allI impI)
    fix j :: int assume "0 \<le> j \<and> j < 5"
    then have "j = 0 \<or> j = 1 \<or> j = 2 \<or> j = 3 \<or> j = 4" by presburger
    then show "files ?st (checkname ''baseq2'' j) \<noteq> None"
      using names by auto
  qed
  have h2: "files ?st (checkname ''baseq2'' 5) = None"
    by (simp add: names)
  have a: "files (GL_ScreenShot_f ''baseq2'' 1 1 [1, 2, 3] None ?st) ''baseq2/scrnshot/quake05.tga''
     = Some (tga_buffer 1 1 [1, 2, 3] None)"
    using screenshot_naming[of 5 ?st "''baseq2''" 1 1 "[1, 2, 3]" None] h1 h2 names(6)
    by simp
  have b: "GL_ScreenShot_f ''baseq2'' 1 1 [1, 2, 3] None ?full
     = ?full\<lparr>console := console ?full @ [''SCR_ScreenShot_f: Couldn't create a file'' @ [CHR 0x0A]]\<rparr>"
    using screenshot_naming[of 0 ?full "''baseq2''" 1 1 "[1, 2, 3]" None] by simp
  show ?thesis using a b by simp
qed

subsection \<open>Sky rotation axis\<close>

lemma glsl_length_scale:
  assumes "0 < k"
  shows "glsl_length (k * x, k * y, k * z) = k * glsl_length (x, y, z)"
proof -
  have "k * x * (k * x) + k * y * (k * y) + k * z * (k * z) = k\<^sup>2 * (x * x + y * y + z * z)"
    by (simp add: power2_eq_square algebra_simps)
  then have "sqrt (k * x * (k * x) + k * y * (k * y) + k * z * (k * z))
      = sqrt (k\<^sup>2) * sqrt (x * x + y * y + z * z)"
    by (simp only: real_sqrt_mult)
  also have "sqrt (k\<^sup>2) = k" using assms by simp
  finally show ?thesis by (simp add: glsl_length_def)
qed

lemma normalize_scale:
  assumes "0 < k"
  shows "normalize (k * x, k * y, k * z) = normalize (x, y, z)"
  using assms by (simp add: normalize_def glsl_length_scale)

lemma glsl_length_normalize:
  assumes "glsl_length (x, y, z) \<noteq> 0"
  shows "glsl_length (normalize (x, y, z)) = 1"
proof -
  let ?l = "glsl_length (x, y, z)"
  have nn: "0 \<le> x * x + y * y + z * z" by simp
  have l2: "?l * ?l = x * x + y * y + z * z"
    unfolding glsl_length_def using nn by simp
  have "x / ?l * (x / ?l) + y / ?l * (y / ?l) + z / ?l * (z / ?l)
      = (x * x + y * y + z * z) / (?l * ?l)"
    by (simp add: add_divide_distrib)
  also have "\<dots> = (?l * ?l) / (?l * ?l)" by (simp only: l2)
  also have "\<dots> = 1" using assms by simp
  finally show ?thesis
    by (simp add: normalize_def glsl_length_def[of "(_ / _, _ / _, _ / _)"])
qed

text \<open>
  Claim C9 (amended). The sky pass rotates its sample direction by the angle
  \<^verbatim>\<open>radians(u_SkyRotate * u_Time)\<close> about the \<^emph>\<open>normalized\<close> sky axis: the axis is normalized
  on every invocation, so for a non-zero axis the rotation uses an axis of length 1, and
  multiplying the supplied axis by any positive factor does not change the result.
\<close>

theorem sky_axis_is_normalized:
  "sky_vert_main axis r t pos = sky_rotate_as_supplied (normalize axis) r t pos
   \<and> (glsl_length (x, y, z) \<noteq> 0 \<longrightarrow> glsl_length (normalize (x, y, z)) = 1)
   \<and> (0 < k \<longrightarrow> sky_vert_main (k * x, k * y, k * z) r t pos = sky_vert_main (x, y, z) r t pos)"
  by (simp add: sky_vert_main_def sky_rotate_as_supplied_def Let_def normalize_scale
      glsl_length_normalize)

theorem sky_axis_is_normalized_witness:
  "glsl_length (0, 0, 1) \<noteq> 0 \<and> glsl_length (normalize (0, 0, 1)) = 1
   \<and> (0::real) < 2 \<and> sky_vert_main (2 * 0, 2 * 0, 2 * 1) 90 2 (1, 0, 0) = sky_vert_main (0, 0, 1) 90 2 (1, 0, 0)"
proof -
  have l: "glsl_length (0, 0, 1) \<noteq> 0" by (simp add: glsl_length_def)
  show ?thesis
    using sky_axis_is_normalized[of "(0, 0, 1)" 90 2 "(1, 0, 0)" 0 0 1 2] l by simp
qed

text \<open>
  For the axis \<open>(0, 0, 2)\<close> and a half turn, the shader's result differs from the rotation
  about the axis as supplied.
\<close>

theorem sky_axis_counterexample:
  "sky_vert_main (0, 0, 2) 90 2 (0, 0, 1) \<noteq> sky_rotate_as_supplied (0, 0, 2) 90 2 (0, 0, 1)"
  by (simp add: sky_vert_main_def sky_rotate_as_supplied_def Let_def normalize_def
      glsl_length_def radians_def rotationMatrix_def mat3_mul_def)

subsection \<open>Water warp\<close>

text \<open>
  Claim C5 (amended). For a surface that is not flowing the water pass samples the texture
  at \<open>s' = (s + sin((t*0.125 + time)*6.28318)*8)/64\<close> and
  \<open>t' = (t + sin((s*0.125 + time)*6.28318)*8)/64\<close>, the literal 6.28318 standing for
  \<open>2\<pi>\<close>; for a flowing surface \<open>s'\<close> is moved further by \<open>u_ScrollOffset/64\<close>. The colour
  channels of the fragment are those of the sample and its alpha is \<^verbatim>\<open>u_Alpha\<close>.
\<close>

theorem water_warp_formula:
  "(flowing = 0 \<longrightarrow> water_warpedCoord (s, t) time flowing scroll =
        ((s + sin ((t * 0.125 + time) * 6.28318) * 8) / 64,
         (t + sin ((s * 0.125 + time) * 6.28318) * 8) / 64))
   \<and> (flowing \<noteq> 0 \<longrightarrow> water_warpedCoord (s, t) time flowing scroll =
        ((s + sin ((t * 0.125 + time) * 6.28318) * 8) / 64 + scroll / 64,
         (t + sin ((s * 0.125 + time) * 6.28318) * 8) / 64))
   \<and> alpha (water_frag_main tex (s, t) time a flowing scroll) = a
   \<and> rgb (water_frag_main tex (s, t) time a flowing scroll)
       = rgb (tex (water_warpedCoord (s, t) time flowing scroll))"
  by (simp add: water_warpedCoord_def water_frag_main_def Let_def alpha_def rgb_def
      split: prod.split)

theorem water_warp_formula_witness:
  "water_warpedCoord (0, 0) 0 0 64 = (0, 0) \<and> water_warpedCoord (0, 0) 0 1 64 = (1, 0)
   \<and> alpha (water_frag_main (\<lambda>c. (fst c, snd c, 1, 1)) (0, 0) 0 (1/3) 0 64) = 1/3"
  using water_warp_formula[of 0 0 0 0 64 "\<lambda>c. (fst c, snd c, 1, 1)" "1/3"]
    water_warp_formula[of 1 0 0 0 64 "\<lambda>c. (fst c, snd c, 1, 1)" "1/3"]
  by simp

text \<open>A flowing surface is not sampled at the coordinates of the spec's formula.\<close>

theorem water_warp_counterexample:
  "water_warpedCoord (0, 0) 0 1 64 \<noteq> spec_warp (0, 0) 0"
  by (simp add: water_warpedCoord_def spec_warp_def Let_def)

subsection \<open>Overbright in the world fragment shader\<close>

lemma clamp_unit: "0 \<le> clamp x 0 1 \<and> clamp x 0 1 \<le> 1"
  by (simp add: clamp_def)

lemma scaled_channel_bound:
  assumes "0 \<le> k" "0 \<le> d"
  shows "d * clamp x 0 1 * k \<le> k * d"
proof -
  have "d * clamp x 0 1 \<le> d * 1"
    using assms clamp_unit[of x] by (intro mult_left_mono) simp_all
  then have "d * clamp x 0 1 * k \<le> d * 1 * k"
    using assms by (intro mult_right_mono) simp_all
  then show ?thesis by (simp add: mult.commute)
qed

text \<open>
  Claim C6 (amended). In the world fragment path (not fullbright, not the lightmap-only
  view, no detail or caustic overlay) the colour is diffuse times lightmap times
  \<^verbatim>\<open>u_OverbrightScale\<close>, and it is not clamped afterwards. Only the lightmap sample is
  clamped to [0,1], before the multiply, and only when \<^verbatim>\<open>u_SaturateLighting\<close> is set; then,
  for a non-negative scale and diffuse colour, each output channel is at most the scale
  times the diffuse channel.
\<close>

theorem world_frag_overbright:
  assumes "u_Fullbright U = 0" and "u_LightmapOnly U = 0"
    and "u_EnableDetail U = 0 \<or> u_IsUnderwater U \<noteq> 0"
    and "u_EnableCaustics U = 0 \<or> u_IsUnderwater U = 0"
    and "D tc = (dr, dg, db, da)" and "L lc = (lr, lg, lb, la)"
  shows "(u_SaturateLighting U = 0 \<longrightarrow>
            world_frag_main U D L O' tc lc =
              (dr * lr * u_OverbrightScale U, dg * lg * u_OverbrightScale U,
               db * lb * u_OverbrightScale U, da))
       \<and> (u_SaturateLighting U \<noteq> 0 \<longrightarrow>
            world_frag_main U D L O' tc lc =
              (dr * clamp lr 0 1 * u_OverbrightScale U, dg * clamp lg 0 1 * u_OverbrightScale U,
               db * clamp lb 0 1 * u_OverbrightScale U, da))
       \<and> (u_SaturateLighting U \<noteq> 0 \<and> 0 \<le> u_OverbrightScale U \<and> 0 \<le> dr \<and> 0 \<le> dg \<and> 0 \<le> db \<longrightarrow>
            (case world_frag_main U D L O' tc lc of (r, g, b, a) \<Rightarrow>
               r \<le> u_OverbrightScale U * dr \<and> g \<le> u_OverbrightScale U * dg
               \<and> b \<le> u_OverbrightScale U * db))"
proof -
  have a: "u_SaturateLighting U = 0 \<Longrightarrow>
            world_frag_main U D L O' tc lc =
              (dr * lr * u_OverbrightScale U, dg * lg * u_OverbrightScale U,
               db * lb * u_OverbrightScale U, da)"
    using assms
    by (auto simp add: world_frag_main_def Let_def rgb_def alpha_def vec3_mul_def vec3_scale_def)
  have b: "u_SaturateLighting U \<noteq> 0 \<Longrightarrow>
            world_frag_main U D L O' tc lc =
              (dr * clamp lr 0 1 * u_OverbrightScale U, dg * clamp lg 0 1 * u_OverbrightScale U,
               db * clamp lb 0 1 * u_OverbrightScale U, da)"
    using assms
    by (auto simp add: world_frag_main_def Let_def rgb_def alpha_def vec3_mul_def vec3_scale_def
        clamp3_def)
  show ?thesis
    using a b scaled_channel_bound[of "u_OverbrightScale U"] by auto
qed

theorem world_frag_overbright_witness:
  "world_frag_main \<lparr>u_OverbrightScale = 2, u_Fullbright = 0, u_SaturateLighting = 1,
      u_EnableDetail = 0, u_DetailScale = 8, u_EnableCaustics = 0, u_CausticScroll = 0,
      u_IsUnderwater = 0, u_LightmapOnly = 0\<rparr>
     (\<lambda>c. (1/2, 1/2, 1/2, 1)) (\<lambda>c. (3, 1/2, 0, 1)) (\<lambda>c. (0, 0, 0, 0)) (0, 0) (0, 0)
     = (1, 1/2, 0, 1)
   \<and> world_frag_main \<lparr>u_OverbrightScale = 2, u_Fullbright = 0, u_SaturateLighting = 0,
      u_EnableDetail = 0, u_DetailScale = 8, u_EnableCaustics = 0, u_CausticScroll = 0,
      u_IsUnderwater = 0, u_LightmapOnly = 0\<rparr>
     (\<lambda>c. (1/2, 1/2, 1/2, 1)) (\<lambda>c. (3, 1/2, 0, 1)) (\<lambda>c. (0, 0, 0, 0)) (0, 0) (0, 0)
     = (3, 1/2, 0, 1)"
  using world_frag_overbright[of "\<lparr>u_OverbrightScale = 2, u_Fullbright = 0, u_SaturateLighting = 1,
      u_EnableDetail = 0, u_DetailScale = 8, u_EnableCaustics = 0, u_CausticScroll = 0,
      u_IsUnderwater = 0, u_LightmapOnly = 0\<rparr>" "\<lambda>c. (1/2, 1/2, 1/2, 1)" "(0, 0)" "1/2" "1/2" "1/2" 1
      "\<lambda>c. (3, 1/2, 0, 1)" "(0, 0)" 3 "1/2" 0 1 "\<lambda>c. (0, 0, 0, 0)"]
    world_frag_overbright[of "\<lparr>u_OverbrightScale = 2, u_Fullbright = 0, u_SaturateLighting = 0,
      u_EnableDetail = 0, u_DetailScale = 8, u_EnableCaustics = 0, u_CausticScroll = 0,
      u_IsUnderwater = 0, u_LightmapOnly = 0\<rparr>" "\<lambda>c. (1/2, 1/2, 1/2, 1)" "(0, 0)" "1/2" "1/2" "1/2" 1
      "\<lambda>c. (3, 1/2, 0, 1)" "(0, 0)" 3 "1/2" 0 1 "\<lambda>c. (0, 0, 0, 0)"]
  by (simp add: clamp_def)

text \<open>
  White diffuse, white lightmap, scale 2, saturation on: the red channel of the fragment
  is 2, above the product diffuse times lightmap clamped to 1.
\<close>

theorem world_frag_counterexample:
  "\<not> (fst (world_frag_main \<lparr>u_OverbrightScale = 2, u_Fullbright = 0, u_SaturateLighting = 1,
      u_EnableDetail = 0, u_DetailScale = 8, u_EnableCaustics = 0, u_CausticScroll = 0,
      u_IsUnderwater = 0, u_LightmapOnly = 0\<rparr>
     (\<lambda>c. (1, 1, 1, 1)) (\<lambda>c. (1, 1, 1, 1)) (\<lambda>c. (0, 0, 0, 0)) (0, 0) (0, 0))
      \<le> clamp (1 * 1) 0 1)"
  by (simp add: world_frag_main_def Let_def rgb_def alpha_def vec3_mul_def vec3_scale_def
      clamp3_def clamp_def)

subsection \<open>The sweep of unused images\<close>

lemma sweep_loop_stop: "\<not> i < numgltextures s \<Longrightarrow> sweep_loop i freed s = (freed, s)"
  by (subst sweep_loop.simps) simp

lemma sweep_loop_keep:
  assumes "i < numgltextures s" and "settled s i"
  shows "sweep_loop i freed s = sweep_loop (Suc i) freed s"
  using assms unfolding settled_def by (subst sweep_loop.simps) (auto simp: Let_def)

lemma sweep_loop_free:
  assumes "i < numgltextures s" and "\<not> settled s i"
  shows "sweep_loop i freed s = sweep_loop (Suc i) (freed @ [texnum (gltextures s ! i)])
           (s\<lparr>gltextures := (gltextures s)[i := image_zero]\<rparr>)"
  using assms unfolding settled_def by (subst sweep_loop.simps) (simp add: Let_def)

lemma settled_cong:
  assumes "gltextures t ! j = gltextures s ! j"
    and "global_registration_sequence t = global_registration_sequence s"
  shows "settled t j = settled s j"
  using assms by (simp add: settled_def)

lemma settled_zero:
  assumes "j < length ts"
  shows "settled (s\<lparr>gltextures := ts[j := image_zero]\<rparr>) j"
  using assms by (simp add: settled_def image_zero_def)

text \<open>What one run of the loop from slot \<open>i\<close> does to the table.\<close>

lemma sweep_loop_result:
  assumes "numgltextures s \<le> length (gltextures s)"
  shows "\<exists>ts. snd (sweep_loop i freed s) = s\<lparr>gltextures := ts\<rparr>
     \<and> length ts = length (gltextures s)
     \<and> (\<forall>j. settled s j \<longrightarrow> ts ! j = gltextures s ! j)
     \<and> (\<forall>j. i \<le> j \<and> j < numgltextures s \<longrightarrow> settled (s\<lparr>gltextures := ts\<rparr>) j)"
  using assms
proof (induction "numgltextures s - i" arbitrary: i freed s)
  case 0
  then have "\<not> i < numgltextures s" by simp
  then have "sweep_loop i freed s = (freed, s)" by (rule sweep_loop_stop)
  moreover have "s = s\<lparr>gltextures := gltextures s\<rparr>" by simp
  ultimately show ?case using \<open>\<not> i < numgltextures s\<close>
    by (intro exI[of _ "gltextures s"]) auto
next
  case (Suc n)
  then have lt: "i < numgltextures s" by simp
  show ?case
  proof (cases "settled s i")
    case True
    have eq: "sweep_loop i freed s = sweep_loop (Suc i) freed s"
      using lt True by (rule sweep_loop_keep)
    have "n = numgltextures s - Suc i" using Suc.hyps(2) by simp
    from Suc.hyps(1)[OF this Suc.prems, of freed]
    obtain ts where ts: "snd (sweep_loop (Suc i) freed s) = s\<lparr>gltextures := ts\<rparr>"
      "length ts = length (gltextures s)"
      "\<forall>j. settled s j \<longrightarrow> ts ! j = gltextures s ! j"
      "\<forall>j. Suc i \<le> j \<and> j < numgltextures s \<longrightarrow> settled (s\<lparr>gltextures := ts\<rparr>) j"
      by blast
    have "ts ! i = gltextures s ! i" using ts(3) True by blast
    then have "settled (s\<lparr>gltextures := ts\<rparr>) i"
      using True settled_cong[of "s\<lparr>gltextures := ts\<rparr>" i s] by simp
    then have "\<forall>j. i \<le> j \<and> j < numgltextures s \<longrightarrow> settled (s\<lparr>gltextures := ts\<rparr>) j"
      using ts(4) by (metis Suc_leI le_neq_implies_less)
    then show ?thesis unfolding eq using ts(1,2,3) by blast
  next
    case False
    let ?s1 = "s\<lparr>gltextures := (gltextures s)[i := image_zero]\<rparr>"
    have eq: "sweep_loop i freed s
        = sweep_loop (Suc i) (freed @ [texnum (gltextures s ! i)]) ?s1"
      using lt False by (rule sweep_loop_free)
    have n: "n = numgltextures ?s1 - Suc i" using Suc.hyps(2) by simp
    have wf1: "numgltextures ?s1 \<le> length (gltextures ?s1)" using Suc.prems by simp
    from Suc.hyps(1)[OF n wf1, of "freed @ [texnum (gltextures s ! i)]"]
    obtain ts where ts:
      "snd (sweep_loop (Suc i) (freed @ [texnum (gltextures s ! i)]) ?s1) = ?s1\<lparr>gltextures := ts\<rparr>"
      "length ts = length (gltextures ?s1)"
      "\<forall>j. settled ?s1 j \<longrightarrow> ts ! j = gltextures ?s1 ! j"
      "\<forall>j. Suc i \<le> j \<and> j < numgltextures ?s1 \<longrightarrow> settled (?s1\<lparr>gltextures := ts\<rparr>) j"
      by blast
    have s1: "?s1\<lparr>gltextures := ts\<rparr> = s\<lparr>gltextures := ts\<rparr>" by simp
    have ilen: "i < length (gltextures s)" using lt Suc.prems by simp
    have keep: "\<forall>j. settled s j \<longrightarrow> ts ! j = gltextures s ! j"
    proof (intro allI impI)
      fix j assume sj: "settled s j"
      then have ne: "j \<noteq> i" using False by auto
      then have same: "gltextures ?s1 ! j = gltextures s ! j" by simp
      then have "settled ?s1 j" using sj settled_cong[of ?s1 j s] by simp
      then show "ts ! j = gltextures s ! j" using ts(3) same by simp
    qed
    have "settled ?s1 i" using ilen by (rule settled_zero)
    then have "ts ! i = gltextures ?s1 ! i" using ts(3) by blast
    then have "settled (s\<lparr>gltextures := ts\<rparr>) i"
      using \<open>settled ?s1 i\<close> settled_cong[of "s\<lparr>gltextures := ts\<rparr>" i ?s1] by simp
    moreover have "\<forall>j. Suc i \<le> j \<and> j < numgltextures s \<longrightarrow> settled (s\<lparr>gltextures := ts\<rparr>) j"
      using ts(4) by simp
    ultimately have "\<forall>j. i \<le> j \<and> j < numgltextures s \<longrightarrow> settled (s\<lparr>gltextures := ts\<rparr>) j"
      by (metis Suc_leI le_neq_implies_less)
    then show ?thesis unfolding eq using ts(1,2) keep unfolding s1 by auto
  qed
qed


lemma sweep_loop_settled:
  assumes "\<forall>j. i \<le> j \<and> j < numgltextures s \<longrightarrow> settled s j"
  shows "sweep_loop i freed s = (freed, s)"
  using assms
proof (induction "numgltextures s - i" arbitrary: i)
  case 0
  then have "\<not> i < numgltextures s" by simp
  then show ?case by (rule sweep_loop_stop)
next
  case (Suc n)
  then have lt: "i < numgltextures s" by simp
  then have "settled s i" using Suc.prems by simp
  then have "sweep_loop i freed s = sweep_loop (Suc i) freed s"
    using lt by (intro sweep_loop_keep)
  moreover have "n = numgltextures s - Suc i" using Suc.hyps(2) by simp
  moreover have "\<forall>j. Suc i \<le> j \<and> j < numgltextures s \<longrightarrow> settled s j"
    using Suc.prems by simp
  ultimately show ?case using Suc.hyps(1) by simp
qed

subsubsection \<open>Touching the images that are never freed\<close>

lemma touch_image_result:
  assumes "touch_image p s = Inr s1"
  shows "\<exists>i. p = Some i \<and> i < length (gltextures s)
     \<and> s1 = s\<lparr>gltextures := (gltextures s)
              [i := (gltextures s ! i)\<lparr>registration_sequence := global_registration_sequence s\<rparr>]\<rparr>"
  using assms by (auto simp: touch_image_def split: option.splits if_splits)

lemma touch_image_touched:
  assumes "touch_image p s = Inr s1"
  shows "touched s1 p \<and> (\<forall>q. touched s q \<longrightarrow> touched s1 q)
     \<and> (\<exists>ts. s1 = s\<lparr>gltextures := ts\<rparr> \<and> length ts = length (gltextures s))"
proof -
  from touch_image_result[OF assms] obtain i where i: "p = Some i" "i < length (gltextures s)"
    "s1 = s\<lparr>gltextures := (gltextures s)
              [i := (gltextures s ! i)\<lparr>registration_sequence := global_registration_sequence s\<rparr>]\<rparr>"
    by blast
  have a: "touched s1 p" using i by (simp add: touched_def)
  have b: "\<forall>q. touched s q \<longrightarrow> touched s1 q"
  proof (intro allI impI)
    fix q assume "touched s q"
    then obtain j where j: "q = Some j" "j < length (gltextures s)"
      "registration_sequence (gltextures s ! j) = global_registration_sequence s"
      by (auto simp: touched_def split: option.splits)
    show "touched s1 q"
      using i j by (cases "j = i") (simp_all add: touched_def)
  qed
  have c: "\<exists>ts. s1 = s\<lparr>gltextures := ts\<rparr> \<and> length ts = length (gltextures s)"
    using i(3) by (intro exI[of _ "(gltextures s)
              [i := (gltextures s ! i)\<lparr>registration_sequence := global_registration_sequence s\<rparr>]"]) simp
  show ?thesis using a b c by blast
qed

lemma touch_image_id:
  assumes "touched s p"
  shows "touch_image p s = Inr s"
proof -
  from assms obtain i where i: "p = Some i" "i < length (gltextures s)"
    "registration_sequence (gltextures s ! i) = global_registration_sequence s"
    by (auto simp: touched_def split: option.splits)
  have eq: "(gltextures s ! i)\<lparr>registration_sequence := global_registration_sequence s\<rparr> = gltextures s ! i"
    using i(3) by (metis image_t.surjective image_t.update_convs(5) image_t.select_convs(5))
  have "(gltextures s)
      [i := (gltextures s ! i)\<lparr>registration_sequence := global_registration_sequence s\<rparr>]
      = (gltextures s)[i := gltextures s ! i]"
    by (simp only: eq)
  also have "\<dots> = gltextures s" by (rule list_update_id)
  finally have u: "(gltextures s)
      [i := (gltextures s ! i)\<lparr>registration_sequence := global_registration_sequence s\<rparr>]
      = gltextures s" .
  have "touch_image p s = Inr (s\<lparr>gltextures := (gltextures s)
      [i := (gltextures s ! i)\<lparr>registration_sequence := global_registration_sequence s\<rparr>]\<rparr>)"
    using i(1,2) by (simp add: touch_image_def)
  also have "\<dots> = Inr (s\<lparr>gltextures := gltextures s\<rparr>)" by (simp only: u)
  also have "\<dots> = Inr s" by simp
  finally show ?thesis .
qed

lemma touch_all_touched:
  assumes "touch_all ps s = Inr s'"
  shows "(\<forall>p\<in>set ps. touched s' p) \<and> (\<forall>q. touched s q \<longrightarrow> touched s' q)
     \<and> (\<exists>ts. s' = s\<lparr>gltextures := ts\<rparr> \<and> length ts = length (gltextures s))"
  using assms
proof (induction ps arbitrary: s)
  case Nil
  then have "s' = s" by simp
  moreover have "s = s\<lparr>gltextures := gltextures s\<rparr>" by simp
  ultimately show ?case by (metis empty_iff list.set(1))
next
  case (Cons p ps)
  then obtain s1 where s1: "touch_image p s = Inr s1" "touch_all ps s1 = Inr s'"
    by (auto split: sum.splits)
  note t1 = touch_image_touched[OF s1(1)]
  note t2 = Cons.IH[OF s1(2)]
  from t1 obtain ts1 where ts1: "s1 = s\<lparr>gltextures := ts1\<rparr>" "length ts1 = length (gltextures s)"
    by blast
  from t2 obtain ts2 where ts2: "s' = s1\<lparr>gltextures := ts2\<rparr>" "length ts2 = length (gltextures s1)"
    by blast
  have "s' = s\<lparr>gltextures := ts2\<rparr> \<and> length ts2 = length (gltextures s)"
    using ts1 ts2 by simp
  then have c: "\<exists>ts. s' = s\<lparr>gltextures := ts\<rparr> \<and> length ts = length (gltextures s)" by blast
  have a: "\<forall>q\<in>set (p # ps). touched s' q" using t1 t2 by auto
  have b: "\<forall>q. touched s q \<longrightarrow> touched s' q" using t1 t2 by blast
  show ?case using a b c by blast
qed

lemma touch_all_id:
  assumes "\<forall>p\<in>set ps. touched s p"
  shows "touch_all ps s = Inr s"
  using assms by (induction ps) (simp_all add: touch_image_id)

lemma touched_settled: "touched s (Some i) \<Longrightarrow> settled s i"
  by (simp add: touched_def settled_def)


text \<open>
  Claim C8. A second sweep right after a sweep frees nothing and leaves the cache as it
  is, so the image count does not change.
\<close>

theorem sweep_idempotent:
  assumes wf: "numgltextures s \<le> length (gltextures s)"
    and run: "GL_FreeUnusedImages s = Inr (freed, s')"
  shows "\<exists>s''. GL_FreeUnusedImages s' = Inr ([], s'') \<and> s'' = s'
     \<and> image_count s'' = image_count s'"
proof -
  from run obtain s1 s2 where s1: "touch_image (r_notexture s) s = Inr s1"
    and s2: "touch_all (r_particletexture s1) s1 = Inr s2"
    and sw: "sweep_loop 0 [] s2 = (freed, s')"
    by (auto simp: GL_FreeUnusedImages_def split: sum.splits)
  note t1 = touch_image_touched[OF s1]
  note t2 = touch_all_touched[OF s2]
  from t1 obtain ts1 where ts1: "s1 = s\<lparr>gltextures := ts1\<rparr>" "length ts1 = length (gltextures s)"
    by blast
  from t2 obtain ts2 where ts2: "s2 = s1\<lparr>gltextures := ts2\<rparr>" "length ts2 = length (gltextures s1)"
    by blast
  have s2s: "s2 = s\<lparr>gltextures := ts2\<rparr>" "length ts2 = length (gltextures s)"
    using ts1 ts2 by simp_all
  have wf2: "numgltextures s2 \<le> length (gltextures s2)" using wf s2s by simp
  from sweep_loop_result[OF wf2, of 0 "[]"] sw
  obtain ts where ts: "s' = s2\<lparr>gltextures := ts\<rparr>" "length ts = length (gltextures s2)"
    "\<forall>j. settled s2 j \<longrightarrow> ts ! j = gltextures s2 ! j"
    "\<forall>j. 0 \<le> j \<and> j < numgltextures s2 \<longrightarrow> settled (s2\<lparr>gltextures := ts\<rparr>) j"
    by auto
  have frame: "r_notexture s' = r_notexture s" "r_particletexture s' = r_particletexture s1"
    "numgltextures s' = numgltextures s2"
    "global_registration_sequence s' = global_registration_sequence s2"
    using ts(1) s2s(1) ts1(1) by simp_all
  have keep: "touched s' q" if "touched s2 q" for q
  proof -
    from that obtain j where j: "q = Some j" "j < length (gltextures s2)"
      "registration_sequence (gltextures s2 ! j) = global_registration_sequence s2"
      by (auto simp: touched_def split: option.splits)
    have "settled s2 j" using j(3) by (simp add: settled_def)
    then have "ts ! j = gltextures s2 ! j" using ts(3) by blast
    then show ?thesis using j ts(1,2) by (simp add: touched_def)
  qed
  have n: "touched s' (r_notexture s')"
    using t1 t2 keep frame(1) by simp
  have p: "\<forall>q\<in>set (r_particletexture s'). touched s' q"
    using t2 keep frame(2) by simp
  have all: "\<forall>j. 0 \<le> j \<and> j < numgltextures s' \<longrightarrow> settled s' j"
    using ts(4) frame(3) ts(1) by simp
  have "GL_FreeUnusedImages s' = Inr (sweep_loop 0 [] s')"
    by (simp add: GL_FreeUnusedImages_def touch_image_id[OF n] touch_all_id[OF p])
  also have "sweep_loop 0 [] s' = ([], s')" using all by (rule sweep_loop_settled)
  finally show ?thesis by simp
qed

theorem sweep_idempotent_witness:
  "GL_FreeUnusedImages
     \<lparr>gltextures =
        [image_zero\<lparr>name := ''r_notexture'', type := it_wall,
                     registration_sequence := 1, texnum := 1153\<rparr>,
         image_zero\<lparr>name := ''textures/e1u1/floor1.wal'', type := it_wall,
                     registration_sequence := 1, texnum := 1154\<rparr>],
      numgltextures = 2, global_registration_sequence = 2, r_notexture = Some 0,
      r_particletexture = [Some 0], scrap_allocated = [], scrap_texels = [],
      scrap_dirty = False, d_8to24table = []\<rparr>
   = Inr ([1154],
     \<lparr>gltextures =
        [image_zero\<lparr>name := ''r_notexture'', type := it_wall,
                     registration_sequence := 2, texnum := 1153\<rparr>,
         image_zero],
      numgltextures = 2, global_registration_sequence = 2, r_notexture = Some 0,
      r_particletexture = [Some 0], scrap_allocated = [], scrap_texels = [],
      scrap_dirty = False, d_8to24table = []\<rparr>)
   \<and> GL_FreeUnusedImages
     \<lparr>gltextures =
        [image_zero\<lparr>name := ''r_notexture'', type := it_wall,
                     registration_sequence := 2, texnum := 1153\<rparr>,
         image_zero],
      numgltextures = 2, global_registration_sequence = 2, r_notexture = Some 0,
      r_particletexture = [Some 0], scrap_allocated = [], scrap_texels = [],
      scrap_dirty = False, d_8to24table = []\<rparr>
   = Inr ([],
     \<lparr>gltextures =
        [image_zero\<lparr>name := ''r_notexture'', type := it_wall,
                     registration_sequence := 2, texnum := 1153\<rparr>,
         image_zero],
      numgltextures = 2, global_registration_sequence = 2, r_notexture = Some 0,
      r_particletexture = [Some 0], scrap_allocated = [], scrap_texels = [],
      scrap_dirty = False, d_8to24table = []\<rparr>)"
proof -
  let ?s0 = "\<lparr>gltextures =
        [image_zero\<lparr>name := ''r_notexture'', type := it_wall,
                     registration_sequence := 1, texnum := 1153\<rparr>,
         image_zero\<lparr>name := ''textures/e1u1/floor1.wal'', type := it_wall,
                     registration_sequence := 1, texnum := 1154\<rparr>],
      numgltextures = 2, global_registration_sequence = 2, r_notexture = Some 0,
      r_particletexture = [Some 0], scrap_allocated = [], scrap_texels = [],
      scrap_dirty = False, d_8to24table = []\<rparr>"
  let ?s1 = "\<lparr>gltextures =
        [image_zero\<lparr>name := ''r_notexture'', type := it_wall,
                     registration_sequence := 2, texnum := 1153\<rparr>,
         image_zero],
      numgltextures = 2, global_registration_sequence = 2, r_notexture = Some 0,
      r_particletexture = [Some 0], scrap_allocated = [], scrap_texels = [],
      scrap_dirty = False, d_8to24table = []\<rparr>"
  have wf: "numgltextures ?s0 \<le> length (gltextures ?s0)" by simp
  have run: "GL_FreeUnusedImages ?s0 = Inr ([1154], ?s1)"
    by (simp add: GL_FreeUnusedImages_def touch_image_def sweep_loop.simps image_zero_def Let_def)
  show ?thesis using sweep_idempotent[OF wf run] run by simp
qed

subsection \<open>Loading a picture into a slot\<close>

lemma find_free_le: "i \<le> n \<Longrightarrow> find_free ts n i \<le> n"
proof (induction "n - i" arbitrary: i)
  case 0
  then show ?case by (subst find_free.simps) simp
next
  case (Suc k)
  then have lt: "i < n" by simp
  show ?case
  proof (cases "texnum (ts ! i) = 0")
    case True
    then show ?thesis using lt by (subst find_free.simps) simp
  next
    case False
    have "k = n - Suc i" using Suc.hyps(2) by simp
    moreover have "Suc i \<le> n" using lt by simp
    ultimately have "find_free ts n (Suc i) \<le> n" by (rule Suc.hyps(1))
    then show ?thesis using lt False by (subst find_free.simps) simp
  qed
qed

text \<open>When \<^verbatim>\<open>GL_LoadPic\<close> gets past its two checks, the slot it picked lies in the array.\<close>

lemma GL_LoadPic_slot:
  assumes "numgltextures s \<le> length (gltextures s)"
    and "\<not> (find_free (gltextures s) (numgltextures s) 0 = numgltextures s
            \<and> numgltextures s = MAX_GLTEXTURES s)"
  shows "find_free (gltextures s) (numgltextures s) 0 < length (gltextures s)"
  using assms find_free_le[of 0 "numgltextures s" "gltextures s"]
  by (auto simp: MAX_GLTEXTURES_def)

text \<open>
  Claim C10. An 8-bit pic whose size, as stored in the image, is below 64 in both
  dimensions and for which \<^verbatim>\<open>Scrap_AllocBlock\<close> finds room is reported with
  \<^verbatim>\<open>has_alpha\<close> set, whatever its pixels are; its texture number is that of the scrap.
\<close>

theorem scrap_pic_has_alpha:
  assumes wf: "numgltextures s \<le> length (gltextures s)"
    and dims: "hires_size env nm w h = (w', h')" "w' < 64" "h' < 64"
    and alloc: "Scrap_AllocBlock (scrap_allocated s) w' h' = Inr (Some (tn, x, y), alloc')"
    and run: "GL_LoadPic env nm pic w h it_pic 8 s = Inr (i, s')"
  shows "i < length (gltextures s') \<and> has_alpha (gltextures s' ! i)
     \<and> texnum (gltextures s' ! i) = TEXNUM_SCRAPS env + tn
     \<and> type (gltextures s' ! i) = it_pic \<and> name (gltextures s' ! i) = nm"
proof -
  let ?i = "find_free (gltextures s) (numgltextures s) 0"
  have ok: "\<not> (?i = numgltextures s \<and> numgltextures s = MAX_GLTEXTURES s)"
    using run by (auto simp: GL_LoadPic_def Let_def split: if_splits)
  have ilen: "?i < length (gltextures s)" using wf ok by (rule GL_LoadPic_slot)
  show ?thesis
    using run ilen dims alloc
    by (auto simp: GL_LoadPic_def Let_def split: if_splits)
qed


lemma scrap_scan_i_rest:
  assumes "1 \<le> i" "i \<le> 254"
  shows "scrap_scan_i (replicate 256 0) 2 i (Some (0, 0)) 0 = (Some (0, 0), 0)"
  using assms
proof (induction "nat (254 - i)" arbitrary: i)
  case 0
  then have "i = 254" by simp
  then show ?case by (subst scrap_scan_i.simps) (simp add: BLOCK_WIDTH_def)
next
  case (Suc k)
  then have lt: "i < 254" by simp
  have j: "scrap_scan_j (replicate 256 0) i 2 0 0 0 = (0, 0)"
    using Suc.prems lt by (subst scrap_scan_j.simps) simp
  have "k = nat (254 - (i + 1))" using Suc.hyps(2) by simp
  moreover have "1 \<le> i + 1" "i + 1 \<le> 254" using Suc.prems lt by simp_all
  ultimately have "scrap_scan_i (replicate 256 0) 2 (i + 1) (Some (0, 0)) 0 = (Some (0, 0), 0)"
    by (rule Suc.hyps(1))
  then show ?case using lt by (subst scrap_scan_i.simps) (simp add: BLOCK_WIDTH_def j)
qed

lemma scrap_alloc_empty:
  "Scrap_AllocBlock (replicate 256 0) 2 1 = Inr (Some (0, 0, 0), (replicate 256 0)[0 := 1, 1 := 1])"
proof -
  have j2: "scrap_scan_j (replicate 256 0) 0 2 256 2 0 = (2, 0)"
    by (subst scrap_scan_j.simps) simp
  have j1: "scrap_scan_j (replicate 256 0) 0 2 256 1 0 = (2, 0)"
    by (subst scrap_scan_j.simps) (simp add: j2)
  have j0: "scrap_scan_j (replicate 256 0) 0 2 256 0 0 = (2, 0)"
    by (subst scrap_scan_j.simps) (simp add: j1)
  have scan: "scrap_scan_i (replicate 256 0) 2 0 None 256 = (Some (0, 0), 0)"
    by (subst scrap_scan_i.simps) (simp add: BLOCK_WIDTH_def j0 scrap_scan_i_rest)
  have m0: "scrap_mark (replicate 256 0) 0 2 1 0 = (replicate 256 0)[0 := 1, 1 := 1]"
    by (simp add: scrap_mark.simps)
  show ?thesis
    by (simp add: Scrap_AllocBlock_def scan BLOCK_HEIGHT_def m0)
qed

theorem scrap_pic_has_alpha_witness:
  "\<exists>i s'. GL_LoadPic
       \<lparr>TEXNUM_SCRAPS = 1152, TEXNUM_IMAGES = 1153, MAX_QPATH = 64,
        COM_StripExtension = takeWhile (\<lambda>c. c \<noteq> CHR ''.''),
        LoadPNG = (\<lambda>f. None), LoadPCX = (\<lambda>f. None),
        FS_LoadFile = (\<lambda>f. None), FS_LoadData = (\<lambda>f. None),
        TGA_body = (\<lambda>d. drop 18 d), R_FloodFillSkin = (\<lambda>p w h. p)\<rparr>
       ''pics/i_health.pcx'' [1, 2] 2 1 it_pic 8
       \<lparr>gltextures = [image_zero, image_zero], numgltextures = 0,
        global_registration_sequence = 1, r_notexture = None, r_particletexture = [],
        scrap_allocated = replicate 256 0, scrap_texels = replicate 65536 0,
        scrap_dirty = False, d_8to24table = replicate 256 0xFF102030\<rparr> = Inr (i, s')
     \<and> has_alpha (gltextures s' ! i) \<and> texnum (gltextures s' ! i) = 1152
     \<and> \<not> GL_Upload8 (replicate 256 0xFF102030) [1, 2] 2 1"
proof -
  let ?env = "\<lparr>TEXNUM_SCRAPS = 1152, TEXNUM_IMAGES = 1153, MAX_QPATH = 64,
        COM_StripExtension = takeWhile (\<lambda>c. c \<noteq> CHR ''.''),
        LoadPNG = (\<lambda>f. None), LoadPCX = (\<lambda>f. None),
        FS_LoadFile = (\<lambda>f. None), FS_LoadData = (\<lambda>f. None),
        TGA_body = (\<lambda>d. drop 18 d), R_FloodFillSkin = (\<lambda>p w h. p)\<rparr>"
  let ?s = "\<lparr>gltextures = [image_zero, image_zero], numgltextures = 0,
        global_registration_sequence = 1, r_notexture = None, r_particletexture = [],
        scrap_allocated = replicate 256 0, scrap_texels = replicate 65536 0,
        scrap_dirty = False, d_8to24table = replicate 256 0xFF102030\<rparr>"
  have wf: "numgltextures ?s \<le> length (gltextures ?s)" by simp
  have dims: "hires_size ?env ''pics/i_health.pcx'' 2 1 = (2, 1)"
    by (simp add: hires_size_def has_ext_def)
  have alloc: "Scrap_AllocBlock (scrap_allocated ?s) 2 1
      = Inr (Some (0, 0, 0), (replicate 256 0)[0 := 1, 1 := 1])"
    by (simp add: scrap_alloc_empty)
  have free: "find_free [image_zero, image_zero] 0 0 = 0"
    by (subst find_free.simps) simp
  have "\<exists>i s'. GL_LoadPic ?env ''pics/i_health.pcx'' [1, 2] 2 1 it_pic 8 ?s = Inr (i, s')"
    using alloc
    by (simp add: GL_LoadPic_def Let_def free MAX_GLTEXTURES_def dims image_zero_def)
  then obtain i s' where run:
    "GL_LoadPic ?env ''pics/i_health.pcx'' [1, 2] 2 1 it_pic 8 ?s = Inr (i, s')"
    by blast
  have up8: "\<not> GL_Upload8 (replicate 256 0xFF102030) [1, 2] 2 1"
    by (simp add: GL_Upload8_def GL_Upload32_def GL_Upload32_samples_def Let_def
        gl_alpha_format_def gl_solid_format_def alpha_scan.simps GL_Upload8_trans_def
        GL_Upload8_pixel_def word_bytes_def upt_rec)
  show ?thesis
    using scrap_pic_has_alpha[OF wf dims _ _ alloc run] run up8 by simp
qed

subsection \<open>Finding an image\<close>










end
